theory Spec2Isabelle
  imports Complex_Main "HOL-Library.Sublist" "HOL-Library.AList"
begin

section \<open>Values of the JavaScript runtime\<close>

text \<open>
  Strings are lists of bytes (UTF-8).  \<open>String.prototype.endsWith\<close> and
  \<open>String.prototype.includes\<close> are the suffix and the contiguous-sublist tests.
\<close>

definition endsWith :: "string \<Rightarrow> string \<Rightarrow> bool" where
  "endsWith s e = suffix e s"

definition includes_str :: "string \<Rightarrow> string \<Rightarrow> bool" where
  "includes_str s t = sublist t s"

text \<open>\<open>toUpperCase\<close> on the ASCII letters (the console types are ASCII words).\<close>

definition upperChar :: "char \<Rightarrow> char" where
  "upperChar c =
     (if (97::nat) \<le> of_char c \<and> of_char c \<le> (122::nat)
      then char_of (of_char c - (32::nat)) else c)"

definition toUpperCase :: "string \<Rightarrow> string" where
  "toUpperCase s = map upperChar s"

text \<open>
  A number inside a template literal: the decimal digits of an integer, with a minus
  sign when it is negative.
\<close>

definition digitChar :: "nat \<Rightarrow> char" where
  "digitChar d = ''0123456789'' ! d"

function showNat :: "nat \<Rightarrow> string" where
  "showNat n = (if n < 10 then [digitChar n] else showNat (n div 10) @ [digitChar (n mod 10)])"
  by pat_completeness auto
termination
  by (relation "measure (\<lambda>n. n)") auto

declare showNat.simps [simp del]

definition showInt :: "int \<Rightarrow> string" where
  "showInt i = (if i < 0 then CHR ''-'' # showNat (nat (- i)) else showNat (nat i))"

text \<open>
  The value \<open>response.json()\<close> resolves to.  A number is carried as a rational (every
  number \<open>JSON.parse\<close> produces is a finite double); an object is the list of its
  properties in insertion order, each key once.
\<close>

datatype json =
    JNull
  | JBool bool
  | JNum rat
  | JStr string
  | JArr "json list"
  | JObj "(string \<times> json) list"

text \<open>
  Reading the property \<open>error\<close> of a parsed body: \<open>None\<close> is \<open>undefined\<close>.  Only an
  object can own the property; reading it from \<open>null\<close> throws and is a branch of the
  caller, not of this function.
\<close>

fun getProp :: "json \<Rightarrow> string \<Rightarrow> json option" where
  "getProp (JObj kvs) k = map_of kvs k"
| "getProp _ k = None"

text \<open>
  What the platform supplies at a point of the execution: the reading of the clock that
  \<open>new Date().toISOString()\<close> returns there, the text of the \<open>TypeError\<close> that reading
  a property of \<open>null\<close> raises (it differs between engines), and \<open>JSON.stringify\<close>.
\<close>

record runtime =
  dateNow :: string
  typeErrorText :: string
  jsonStringify :: "json \<Rightarrow> string"

section \<open>Browser events\<close>

record consoleMessage =
  msg_type :: string
  msg_text :: string

record request =
  req_method :: string
  req_url :: string
  req_resourceType :: string

text \<open>
  A response; \<open>resp_resourceType\<close> is \<open>response.request().resourceType()\<close>, and
  \<open>resp_json\<close> is the outcome of \<open>response.json()\<close>: \<open>Inl e\<close> when the promise rejects
  with an error that prints as \<open>e\<close>, \<open>Inr v\<close> when it resolves to \<open>v\<close>.
\<close>

record response =
  resp_status :: int
  resp_url :: string
  resp_resourceType :: string
  resp_json :: "string + json"

section \<open>EventHandler\<close>

datatype level = Info | Warn | Error

type_synonym logger = "(level \<times> string) list"

record eventHandler =
  consoleLogger :: logger
  networkLogger :: logger

definition consoleLog :: "level \<Rightarrow> string \<Rightarrow> 'z eventHandler_scheme \<Rightarrow> 'z eventHandler_scheme" where
  "consoleLog l m h = h\<lparr>consoleLogger := consoleLogger h @ [(l, m)]\<rparr>"

definition networkLog :: "level \<Rightarrow> string \<Rightarrow> 'z eventHandler_scheme \<Rightarrow> 'z eventHandler_scheme" where
  "networkLog l m h = h\<lparr>networkLogger := networkLogger h @ [(l, m)]\<rparr>"

text \<open>
  The protected hooks are the virtual methods of the class: the handlers below take the
  table of the instance they run on.
\<close>

record 's hooks =
  hook_onConsoleError :: "string \<Rightarrow> 's \<Rightarrow> 's"
  hook_onConsoleWarning :: "string \<Rightarrow> 's \<Rightarrow> 's"
  hook_onConsoleLog :: "string \<Rightarrow> 's \<Rightarrow> 's"
  hook_onRequest :: "request \<Rightarrow> 's \<Rightarrow> 's"
  hook_onSuccess :: "response \<Rightarrow> 's \<Rightarrow> 's"
  hook_onClientError :: "response \<Rightarrow> 's \<Rightarrow> 's"
  hook_onServerError :: "response \<Rightarrow> 's \<Rightarrow> 's"

definition handleConsole ::
  "('z eventHandler_scheme) hooks \<Rightarrow> consoleMessage \<Rightarrow> 'z eventHandler_scheme \<Rightarrow> 'z eventHandler_scheme" where
  "handleConsole hk msg h =
     (let type = msg_type msg;
          text = msg_text msg;
          h1 = consoleLog Info (''[Browser '' @ toUpperCase type @ ''] '' @ text) h
      in if type = ''error'' then hook_onConsoleError hk text h1
         else if type = ''warning'' then hook_onConsoleWarning hk text h1
         else if type = ''log'' then hook_onConsoleLog hk text h1
         else h1)"

text \<open>The arrows of the two network log lines, as their UTF-8 bytes.\<close>

definition rightArrow :: string where
  "rightArrow = [CHR 0xE2, CHR 0x86, CHR 0x92]"

definition leftArrow :: string where
  "leftArrow = [CHR 0xE2, CHR 0x86, CHR 0x90]"

definition handleRequest ::
  "('z eventHandler_scheme) hooks \<Rightarrow> request \<Rightarrow> 'z eventHandler_scheme \<Rightarrow> 'z eventHandler_scheme" where
  "handleRequest hk request h =
     (let method = req_method request;
          url = req_url request;
          resourceType = req_resourceType request;
          h1 = (if resourceType = ''xhr'' \<or> resourceType = ''fetch''
                then networkLog Info (''[Network] '' @ rightArrow @ '' '' @ method @ '' '' @ url) h
                else h)
      in hook_onRequest hk request h1)"

definition handleResponse ::
  "('z eventHandler_scheme) hooks \<Rightarrow> response \<Rightarrow> 'z eventHandler_scheme \<Rightarrow> 'z eventHandler_scheme" where
  "handleResponse hk response h =
     (let status = resp_status response;
          url = resp_url response;
          resourceType = resp_resourceType response;
          h1 = (if resourceType = ''xhr'' \<or> resourceType = ''fetch''
                then networkLog Info (''[Network] '' @ leftArrow @ '' '' @ showInt status @ '' '' @ url) h
                else h)
      in if status \<ge> 500 then hook_onServerError hk response h1
         else if status \<ge> 400 then hook_onClientError hk response h1
         else if status \<ge> 200 \<and> status < 300 then hook_onSuccess hk response h1
         else h1)"

text \<open>The hooks as the base class \<open>EventHandler\<close> defines them.\<close>

definition base_onClientError :: "response \<Rightarrow> 'z eventHandler_scheme \<Rightarrow> 'z eventHandler_scheme" where
  "base_onClientError response h =
     networkLog Warn (''Client error: '' @ showInt (resp_status response) @ '' '' @ resp_url response) h"

definition base_onServerError :: "response \<Rightarrow> 'z eventHandler_scheme \<Rightarrow> 'z eventHandler_scheme" where
  "base_onServerError response h =
     networkLog Error (''Server error: '' @ showInt (resp_status response) @ '' '' @ resp_url response) h"

definition baseHooks :: "('z eventHandler_scheme) hooks" where
  "baseHooks =
     \<lparr> hook_onConsoleError = (\<lambda>message h. h),
       hook_onConsoleWarning = (\<lambda>message h. h),
       hook_onConsoleLog = (\<lambda>message h. h),
       hook_onRequest = (\<lambda>request h. h),
       hook_onSuccess = (\<lambda>response h. h),
       hook_onClientError = base_onClientError,
       hook_onServerError = base_onServerError \<rparr>"

section \<open>CustomEventHandler\<close>

text \<open>
  What the monitor stores for a critical endpoint: every record has the url, the
  timestamp and the status, and either a \<open>body\<close> or an \<open>error\<close> property.
\<close>

record observation =
  obs_url :: string
  obs_timestamp :: string
  obs_status :: int
  obs_body :: "json option"
  obs_error :: "string option"

text \<open>
  The fields of the class.  The counters are JavaScript numbers that start at 0 and are
  only incremented; they are natural numbers here.  \<open>criticalEndpointResponses\<close> is the
  \<open>Map\<close>, as the list of its entries in insertion order: \<open>set\<close> on a key that is present
  replaces the value in place, and appends the entry otherwise (\<open>AList.update\<close>).

  \<open>checkCriticalEndpoint\<close> is an \<open>async\<close> method that \<open>onSuccess\<close> calls without
  awaiting it: it runs up to \<open>await response.json()\<close> inside the hook and the rest
  runs later, when the body has arrived.  \<open>suspended\<close> holds the calls that wait there,
  each with the values its continuation closes over; it is the part of the job queue of
  the runtime that belongs to this object.
\<close>

record customEventHandler = eventHandler +
  errorCount :: nat
  requestCount :: nat
  serverErrorCount :: nat
  criticalEndpointFailed :: bool
  criticalEndpointResponses :: "(string \<times> observation) list"
  healthCheckPassed :: bool
  suspended :: "(string \<times> response) list"

definition criticalEndpoints :: "string list" where
  "criticalEndpoints =
     [''/getStore'', ''/getToken'', ''/getOrderTypeData'', ''/getDataAuthStore'', ''/health'']"

text \<open>The constructor: the two loggers are handed in, the fields take their initialisers.\<close>

definition newCustomEventHandler :: "logger \<Rightarrow> logger \<Rightarrow> customEventHandler" where
  "newCustomEventHandler cl nl =
     \<lparr> consoleLogger = cl, networkLogger = nl,
       errorCount = 0, requestCount = 0, serverErrorCount = 0,
       criticalEndpointFailed = False,
       criticalEndpointResponses = [],
       healthCheckPassed = False,
       suspended = [] \<rparr>"

text \<open>The two signs that open some log lines, as the bytes that the source file holds.\<close>

definition warningSign :: string where
  "warningSign = [CHR 0xC3, CHR 0xA2, CHR 0xC5, CHR 0xA1, CHR 0xC2, CHR 0xA0, CHR 0xC3, CHR 0xAF,
                   CHR 0xC2, CHR 0xB8]"

definition alarmSign :: string where
  "alarmSign = [CHR 0xC3, CHR 0xB0, CHR 0xC5, CHR 0xB8, CHR 0xC5, CHR 0xA1, CHR 0xC2, CHR 0xA8]"

definition onConsoleError :: "string \<Rightarrow> customEventHandler \<Rightarrow> customEventHandler" where
  "onConsoleError message h =
     (let h1 = h\<lparr>errorCount := errorCount h + 1\<rparr>;
          h2 = (if errorCount h1 > 10
                then consoleLog Error
                       (warningSign @ '' High console error count: '' @ showNat (errorCount h1)) h1
                else h1)
      in if includes_str message ''Failed to load resource''
         then consoleLog Warn (''Resource loading failed: '' @ message) h2
         else h2)"

definition onRequest :: "request \<Rightarrow> customEventHandler \<Rightarrow> customEventHandler" where
  "onRequest request h =
     (let h1 = h\<lparr>requestCount := requestCount h + 1\<rparr>;
          url = req_url request;
          h2 = (if includes_str url ''/api/''
                then networkLog Info (''API call: '' @ req_method request @ '' '' @ url) h1
                else h1)
      in if includes_str url ''analytics'' \<or> includes_str url ''tracking''
         then networkLog Info (''Blocking tracking request: '' @ url) h2
         else h2)"

definition onServerError :: "response \<Rightarrow> customEventHandler \<Rightarrow> customEventHandler" where
  "onServerError response h =
     (let h1 = h\<lparr>serverErrorCount := serverErrorCount h + 1\<rparr>;
          url = resp_url response;
          status = resp_status response;
          h2 = networkLog Error (alarmSign @ '' Server error '' @ showInt status @ '': '' @ url) h1;
          h3 = (if includes_str url ''getbyalias''
                then networkLog Error (''Critical: Short URL service failed - '' @ url) h2
                else h2)
      in if serverErrorCount h3 > 5
         then networkLog Error
                (warningSign @ '' High server error count: '' @ showNat (serverErrorCount h3)) h3
         else h3)"

definition onClientError :: "response \<Rightarrow> customEventHandler \<Rightarrow> customEventHandler" where
  "onClientError response h =
     (let status = resp_status response;
          url = resp_url response;
          h1 = (if status = 404 then networkLog Warn (''Resource not found: '' @ url) h else h)
      in if status = 401 \<or> status = 403
         then networkLog Error
                (''Authentication/Authorization failed: '' @ showInt status @ '' '' @ url) h1
         else h1)"

text \<open>\<open>Map.prototype.set\<close> on \<open>criticalEndpointResponses\<close>.\<close>

definition setResponse :: "string \<Rightarrow> observation \<Rightarrow> customEventHandler \<Rightarrow> customEventHandler" where
  "setResponse endpointName obs h =
     h\<lparr>criticalEndpointResponses := AList.update endpointName obs (criticalEndpointResponses h)\<rparr>"

text \<open>
  \<open>checkCriticalEndpoint\<close>, from its entry to its first \<open>await\<close>: the \<open>/health\<close> branch
  never awaits and is complete here; for the other endpoints the call is suspended on
  \<open>response.json()\<close>.
\<close>

definition checkCriticalEndpoint :: "runtime \<Rightarrow> response \<Rightarrow> customEventHandler \<Rightarrow> customEventHandler" where
  "checkCriticalEndpoint rt response h =
     (let url = resp_url response in
      case find (\<lambda>e. endsWith url e) criticalEndpoints of
        None \<Rightarrow> h
      | Some endpointName \<Rightarrow>
          if endpointName = ''/health'' then
            (if resp_status response = 200 then
               networkLog Info (''[Critical Endpoint] '' @ endpointName @ '': SUCCESS (HTTP 200)'')
                 (setResponse endpointName
                    \<lparr> obs_url = url, obs_timestamp = dateNow rt, obs_status = resp_status response,
                      obs_body = Some (JStr ''OK (200)''), obs_error = None \<rparr>
                    (h\<lparr>healthCheckPassed := True\<rparr>))
             else
               setResponse endpointName
                 \<lparr> obs_url = url, obs_timestamp = dateNow rt, obs_status = resp_status response,
                   obs_body = None,
                   obs_error = Some (''HTTP '' @ showInt (resp_status response)) \<rparr>
                 ((networkLog Error
                     (alarmSign @ '' Critical endpoint '' @ endpointName @ '' returned status ''
                        @ showInt (resp_status response)) h)
                  \<lparr>criticalEndpointFailed := True\<rparr>))
          else h\<lparr>suspended := suspended h @ [(endpointName, response)]\<rparr>)"

text \<open>
  The \<open>catch\<close> block of \<open>checkCriticalEndpoint\<close>; \<open>error\<close> is the caught value as the
  template literal prints it.
\<close>

definition jsonCatch :: "runtime \<Rightarrow> string \<Rightarrow> response \<Rightarrow> string \<Rightarrow> customEventHandler \<Rightarrow> customEventHandler" where
  "jsonCatch rt endpointName response error h =
     setResponse endpointName
       \<lparr> obs_url = resp_url response, obs_timestamp = dateNow rt, obs_status = resp_status response,
         obs_body = None,
         obs_error = Some (''Failed to parse JSON response: '' @ error) \<rparr>
       ((networkLog Error
           (alarmSign @ '' Critical endpoint '' @ endpointName @ '' did not return valid JSON: '' @ error) h)
        \<lparr>criticalEndpointFailed := True\<rparr>)"

text \<open>
  The rest of \<open>checkCriticalEndpoint\<close>, from the point where \<open>response.json()\<close>
  settles.  A rejection enters the \<open>catch\<close> block.  A body is stored first; then
  \<open>responseBody.error\<close> is read, which throws a \<open>TypeError\<close> when the body is \<open>null\<close>
  (and the \<open>catch\<close> block then overwrites what was stored).
\<close>

definition checkCriticalEndpoint_resume ::
  "runtime \<Rightarrow> string \<Rightarrow> response \<Rightarrow> customEventHandler \<Rightarrow> customEventHandler" where
  "checkCriticalEndpoint_resume rt endpointName response h =
     (case resp_json response of
        Inl error \<Rightarrow> jsonCatch rt endpointName response error h
      | Inr responseBody \<Rightarrow>
          (let h1 = setResponse endpointName
                      \<lparr> obs_url = resp_url response, obs_timestamp = dateNow rt,
                        obs_status = resp_status response,
                        obs_body = Some responseBody, obs_error = None \<rparr> h
           in if responseBody = JNull then jsonCatch rt endpointName response (typeErrorText rt) h1
              else if getProp responseBody ''error'' = Some (JBool True) then
                (networkLog Error (''Response: '' @ jsonStringify rt responseBody)
                   (networkLog Error
                      (alarmSign @ '' Critical endpoint failed: '' @ endpointName @ '' returned error:true'') h1))
                \<lparr>criticalEndpointFailed := True\<rparr>
              else networkLog Info (''[Critical Endpoint] '' @ endpointName @ '': SUCCESS'') h1))"

definition onSuccess :: "runtime \<Rightarrow> response \<Rightarrow> customEventHandler \<Rightarrow> customEventHandler" where
  "onSuccess rt response h =
     (let url = resp_url response;
          isCriticalEndpoint = list_ex (\<lambda>endpoint. endsWith url endpoint) criticalEndpoints
      in if isCriticalEndpoint then checkCriticalEndpoint rt response h else h)"

text \<open>
  The virtual methods of a \<open>CustomEventHandler\<close>: five overrides, and the two console
  hooks it inherits.  The runtime is the one of the moment the handler is entered.
\<close>

definition customHooks :: "runtime \<Rightarrow> customEventHandler hooks" where
  "customHooks rt =
     \<lparr> hook_onConsoleError = onConsoleError,
       hook_onConsoleWarning = hook_onConsoleWarning baseHooks,
       hook_onConsoleLog = hook_onConsoleLog baseHooks,
       hook_onRequest = onRequest,
       hook_onSuccess = onSuccess rt,
       hook_onClientError = onClientError,
       hook_onServerError = onServerError \<rparr>"

subsection \<open>The queries\<close>

definition hasCriticalFailure :: "customEventHandler \<Rightarrow> bool" where
  "hasCriticalFailure h = criticalEndpointFailed h"

definition hasHealthCheckPassed :: "customEventHandler \<Rightarrow> bool" where
  "hasHealthCheckPassed h = healthCheckPassed h"

definition getCriticalEndpointResponses :: "customEventHandler \<Rightarrow> (string \<times> observation) list" where
  "getCriticalEndpointResponses h = criticalEndpointResponses h"

text \<open>\<open>Map.prototype.get\<close>: \<open>None\<close> is \<open>undefined\<close>.\<close>

definition getEndpointResponse :: "string \<Rightarrow> customEventHandler \<Rightarrow> observation option" where
  "getEndpointResponse endpointName h = map_of (criticalEndpointResponses h) endpointName"

text \<open>
  The plain object is the list of its own properties; \<open>forEach\<close> visits the entries of
  the map in insertion order and assigns each to the object.
\<close>

definition getAllResponsesAsObject :: "customEventHandler \<Rightarrow> (string \<times> observation) list" where
  "getAllResponsesAsObject h =
     fold (\<lambda>(key, value) obj. AList.update key value obj) (criticalEndpointResponses h) []"

record stats =
  totalRequests :: nat
  consoleErrors :: nat
  serverErrors :: nat
  criticalEndpointsTracked :: nat
  criticalEndpointsFailed :: bool

definition getStats :: "customEventHandler \<Rightarrow> stats" where
  "getStats h =
     \<lparr> totalRequests = requestCount h,
       consoleErrors = errorCount h,
       serverErrors = serverErrorCount h,
       criticalEndpointsTracked = length (criticalEndpointResponses h),
       criticalEndpointsFailed = criticalEndpointFailed h \<rparr>"

subsection \<open>A session of the monitor\<close>

text \<open>
  What can happen to the handler of a session: the page delivers a console message, a
  request or a response to the listeners that \<open>Runner.run\<close> registers, or the body of a
  suspended \<open>checkCriticalEndpoint\<close> call arrives and the call runs to its end.
  \<open>BodyArrives k\<close> resumes the \<open>k\<close>-th suspended call (bodies arrive in any order); it is
  nothing when there is no such call.
\<close>

datatype event =
    ConsoleEvent consoleMessage
  | RequestEvent request
  | ResponseEvent response
  | BodyArrives nat

fun deliver :: "runtime \<Rightarrow> event \<Rightarrow> customEventHandler \<Rightarrow> customEventHandler" where
  "deliver rt (ConsoleEvent msg) h = handleConsole (customHooks rt) msg h"
| "deliver rt (RequestEvent request) h = handleRequest (customHooks rt) request h"
| "deliver rt (ResponseEvent response) h = handleResponse (customHooks rt) response h"
| "deliver rt (BodyArrives k) h =
     (if k < length (suspended h)
      then checkCriticalEndpoint_resume rt (fst (suspended h ! k)) (snd (suspended h ! k))
             (h\<lparr>suspended := take k (suspended h) @ drop (Suc k) (suspended h)\<rparr>)
      else h)"

fun deliverAll :: "(runtime \<times> event) list \<Rightarrow> customEventHandler \<Rightarrow> customEventHandler" where
  "deliverAll [] h = h"
| "deliverAll ((rt, e) # es) h = deliverAll es (deliver rt e h)"
section \<open>Runner\<close>

text \<open>
  The calls a session makes on its collaborators (the shared browser, its own context
  and page, an element handle, the scenario), recorded in the order they are made.
  \<open>ElementScreenshot dir file\<close> is \<open>iframeElement.screenshot\<close> with the path
  \<open>path.join(dir, file)\<close>; \<open>ScenarioExecute\<close> is \<open>new Scenario(...).execute()\<close>, the
  scripted interaction as a whole.  \<open>Launch\<close> and \<open>BrowserClose\<close> are calls of the
  launcher.
\<close>

datatype call =
    Launch
  | NewContext
  | NewPage
  | PageOn string
  | Goto string
  | WaitForSelector string
  | Query string
  | ContentFrame
  | WaitForLoadState
  | WaitForResponse
  | SetTimeout nat
  | ElementScreenshot string string
  | ScenarioExecute
  | ContextClose
  | BrowserClose

text \<open>
  What the browser answers to an awaited call: the steps the page delivers to the
  listeners while the call is pending, and the outcome, \<open>Inl e\<close> for a rejection with
  an error that prints as \<open>e\<close>.
\<close>

type_synonym 'a awaited = "(runtime \<times> event) list \<times> (string + 'a)"

text \<open>
  The environment of one \<open>captureScreenshot\<close> call: the directory
  \<open>path.join(process.cwd(), "screenshots")\<close>, the reading of the clock, whether
  \<open>page.$\<close> finds the iframe element, and the outcome of the capture.
\<close>

record shot =
  shot_dir :: string
  shot_now :: string
  shot_query :: "bool awaited"
  shot_capture :: "unit awaited"

text \<open>
  The environment of one run, one answer per awaited call.  \<open>sc_contentFrame\<close> resolves
  to the URL of the frame, or to \<open>None\<close> for \<open>null\<close>; \<open>sc_settle\<close> is what the page
  delivers during the 100 ms timer; \<open>sc_scenarioLog\<close> is what the scenario writes to the
  console logger it shares with the runner.  \<open>context.close()\<close> resolves: the source
  has no handler for its rejection, and no answer for it is part of the environment.
\<close>

record script =
  sc_newContext :: "string + unit"
  sc_newPage :: "string + unit"
  sc_goto :: "unit awaited"
  sc_waitForSelector :: "unit awaited"
  sc_query :: "bool awaited"
  sc_contentFrame :: "string option awaited"
  sc_waitForLoadState :: "unit awaited"
  sc_waitForResponse :: "unit awaited"
  sc_settle :: "(runtime \<times> event) list"
  sc_shotAbort :: shot
  sc_shotBefore :: shot
  sc_shotAfter :: shot
  sc_scenario :: "unit awaited"
  sc_scenarioLog :: logger

text \<open>
  The fields of a \<open>Runner\<close>.  \<open>rn_context\<close> and \<open>rn_page\<close> say whether the field is set
  (it is \<open>null\<close> before).  The loggers of the runner are the objects it hands to its
  event handler, so they are the two logger fields of \<open>rn_eventHandler\<close>.
\<close>

record runner =
  rn_url :: string
  rn_id :: int
  rn_context :: bool
  rn_page :: bool
  rn_eventHandler :: customEventHandler
  rn_calls :: "call list"

definition newRunner :: "string \<Rightarrow> int \<Rightarrow> runner" where
  "newRunner u i =
     \<lparr> rn_url = u, rn_id = i, rn_context = False, rn_page = False,
       rn_eventHandler = newCustomEventHandler [] [], rn_calls = [] \<rparr>"

definition getEventHandler :: "runner \<Rightarrow> customEventHandler" where
  "getEventHandler r = rn_eventHandler r"

definition runnerLog :: "level \<Rightarrow> string \<Rightarrow> runner \<Rightarrow> runner" where
  "runnerLog l m r = r\<lparr>rn_eventHandler := consoleLog l m (rn_eventHandler r)\<rparr>"

text \<open>A call that is not awaited on the page events (\<open>page.on\<close>), and an awaited one.\<close>

definition doCall :: "call \<Rightarrow> runner \<Rightarrow> runner" where
  "doCall c r = r\<lparr>rn_calls := rn_calls r @ [c]\<rparr>"

definition awaitCall :: "call \<Rightarrow> 'a awaited \<Rightarrow> runner \<Rightarrow> (string + 'a) \<times> runner" where
  "awaitCall c answer r =
     (snd answer,
      (doCall c r)\<lparr>rn_eventHandler := deliverAll (fst answer) (rn_eventHandler r)\<rparr>)"

definition iframeSelector :: string where
  "iframeSelector = ''iframe#iframeFE''"

definition monitorIframe :: "script \<Rightarrow> runner \<Rightarrow> runner" where
  "monitorIframe sc r =
     (if \<not> rn_page r then r
      else
        case awaitCall (WaitForSelector iframeSelector) (sc_waitForSelector sc)
               (runnerLog Info ''Waiting for iframe#iframeFE...'' r) of
          (Inl error, r1) \<Rightarrow> runnerLog Error (''Iframe monitoring failed: '' @ error) r1
        | (Inr u, r1) \<Rightarrow>
           (case awaitCall (Query iframeSelector) (sc_query sc)
                   (runnerLog Info ''iframe#iframeFE found'' r1) of
              (Inl error, r2) \<Rightarrow> runnerLog Error (''Iframe monitoring failed: '' @ error) r2
            | (Inr False, r2) \<Rightarrow> runnerLog Error ''iframe#iframeFE not found after wait'' r2
            | (Inr True, r2) \<Rightarrow>
               (case awaitCall ContentFrame (sc_contentFrame sc) r2 of
                  (Inl error, r3) \<Rightarrow> runnerLog Error (''Iframe monitoring failed: '' @ error) r3
                | (Inr None, r3) \<Rightarrow> runnerLog Error ''Could not access iframe#iframeFE content'' r3
                | (Inr (Some iframeUrl), r3) \<Rightarrow>
                   (case awaitCall WaitForLoadState (sc_waitForLoadState sc)
                           (runnerLog Info (''iframe#iframeFE URL: '' @ iframeUrl) r3) of
                      (Inl error, r4) \<Rightarrow>
                        runnerLog Info ''iframe#iframeFE loaded and monitored''
                          (runnerLog Warn ''iframe#iframeFE did not reach networkidle state'' r4)
                    | (Inr v, r4) \<Rightarrow> runnerLog Info ''iframe#iframeFE loaded and monitored'' r4))))"

definition waitForAppReady :: "script \<Rightarrow> runner \<Rightarrow> runner" where
  "waitForAppReady sc r =
     (if \<not> rn_page r then r
      else
        case awaitCall WaitForResponse (sc_waitForResponse sc)
               (runnerLog Info ''Waiting for /health endpoint...'' r) of
          (Inl error, r1) \<Rightarrow> runnerLog Error (''Health check timeout: '' @ error) r1
        | (Inr u, r1) \<Rightarrow>
           (let r2 = snd (awaitCall (SetTimeout 100) (sc_settle sc, Inr ()) r1)
            in if hasHealthCheckPassed (rn_eventHandler r2)
               then runnerLog Info ''App is ready: Health check passed'' r2
               else runnerLog Warn ''Health endpoint called but did not return OK status'' r2))"

text \<open>
  \<open>captureScreenshot\<close>; the label is \<open>None\<close> when the argument is left out, and an empty
  label counts as none (\<open>label ? ... : ""\<close>).
\<close>

definition screenshotName :: "int \<Rightarrow> string option \<Rightarrow> string \<Rightarrow> string" where
  "screenshotName i label now =
     (let timestamp = map (\<lambda>c. if c = CHR '':'' \<or> c = CHR ''.'' then CHR ''-'' else c) now;
          labelPart = (case label of None \<Rightarrow> [] | Some l \<Rightarrow> if l = [] then [] else ''-'' @ l)
      in ''runner-'' @ showInt i @ labelPart @ ''-'' @ timestamp @ ''.png'')"

definition captureScreenshot :: "shot \<Rightarrow> string option \<Rightarrow> runner \<Rightarrow> runner" where
  "captureScreenshot sh label r =
     (if \<not> rn_page r then r
      else
        let filename = screenshotName (rn_id r) label (shot_now sh) in
        case awaitCall (Query iframeSelector) (shot_query sh) r of
          (Inl error, r1) \<Rightarrow> runnerLog Error (''Screenshot failed: '' @ error) r1
        | (Inr False, r1) \<Rightarrow> runnerLog Error ''iframe#iframeFE not found for screenshot'' r1
        | (Inr True, r1) \<Rightarrow>
           (case awaitCall (ElementScreenshot (shot_dir sh) filename) (shot_capture sh) r1 of
              (Inl error, r2) \<Rightarrow> runnerLog Error (''Screenshot failed: '' @ error) r2
            | (Inr u, r2) \<Rightarrow> runnerLog Info (''Screenshot saved: '' @ filename) r2))"

text \<open>
  \<open>executeScenario\<close>: the scenario writes its own lines to the shared console logger;
  an error it throws is logged and thrown again.
\<close>

definition executeScenario :: "script \<Rightarrow> runner \<Rightarrow> (string + unit) \<times> runner" where
  "executeScenario sc r =
     (if \<not> rn_page r then (Inr (), r)
      else
        case awaitCall ScenarioExecute (sc_scenario sc) r of
          (res, r1) \<Rightarrow>
            (let r2 = r1\<lparr>rn_eventHandler :=
                         (rn_eventHandler r1)\<lparr>consoleLogger :=
                            consoleLogger (rn_eventHandler r1) @ sc_scenarioLog sc\<rparr>\<rparr>
             in case res of
                  Inl error \<Rightarrow> (Inl error, runnerLog Error (''Scenario execution error: '' @ error) r2)
                | Inr u \<Rightarrow> (Inr (), r2)))"

definition logResponseSummary :: "runner \<Rightarrow> runner" where
  "logResponseSummary r =
     (let responses = getAllResponsesAsObject (rn_eventHandler r);
          stats = getStats (rn_eventHandler r);
          r1 = runnerLog Info ''=== Runner Summary ==='' r;
          r2 = runnerLog Info (''Total Requests: '' @ showNat (totalRequests stats)) r1;
          r3 = runnerLog Info (''Console Errors: '' @ showNat (consoleErrors stats)) r2;
          r4 = runnerLog Info (''Server Errors: '' @ showNat (serverErrors stats)) r3;
          r5 = runnerLog Info
                 (''Critical Endpoints Tracked: '' @ showNat (criticalEndpointsTracked stats)) r4
      in fold (\<lambda>(endpoint, data) q.
                 runnerLog Info
                   (endpoint @ '': '' @
                    (case obs_error data of
                       None \<Rightarrow> ''SUCCESS''
                     | Some e \<Rightarrow> if e = [] then ''SUCCESS'' else ''FAILED'')) q)
              responses r5)"

text \<open>
  \<open>run\<close>, in the three parts of its \<open>try\<close> statement.  \<open>toCriticalCheck\<close> is the
  \<open>try\<close> block up to the point where \<open>hasCriticalFailure()\<close> is inspected; it ends
  early, with the error, when creating the context or the page or the navigation
  rejects.  \<open>fromCriticalCheck\<close> is the block from there on.
\<close>

definition toCriticalCheck :: "script \<Rightarrow> runner \<Rightarrow> (string + unit) \<times> runner" where
  "toCriticalCheck sc r =
     (case awaitCall NewContext ([], sc_newContext sc) r of
        (Inl error, r1) \<Rightarrow> (Inl error, r1)
      | (Inr u, r1) \<Rightarrow>
         (case awaitCall NewPage ([], sc_newPage sc) (r1\<lparr>rn_context := True\<rparr>) of
            (Inl error, r2) \<Rightarrow> (Inl error, r2)
          | (Inr v, r2) \<Rightarrow>
             (case awaitCall (Goto (rn_url r)) (sc_goto sc)
                     (runnerLog Info (''Opening: '' @ rn_url r)
                        (doCall (PageOn ''response'')
                           (doCall (PageOn ''request'')
                              (doCall (PageOn ''console'') (r2\<lparr>rn_page := True\<rparr>))))) of
                (Inl error, r3) \<Rightarrow> (Inl error, r3)
              | (Inr w, r3) \<Rightarrow>
                  (Inr (),
                   waitForAppReady sc
                     (monitorIframe sc (runnerLog Info (''Loaded: '' @ rn_url r) r3))))))"

definition fromCriticalCheck :: "script \<Rightarrow> runner \<Rightarrow> (string + unit) \<times> runner" where
  "fromCriticalCheck sc r =
     (if hasCriticalFailure (rn_eventHandler r)
      then (Inr (),
            captureScreenshot (sc_shotAbort sc) None
              (runnerLog Error
                 ''Critical endpoint failure detected - stopping runner and taking screenshot'' r))
      else
        case executeScenario sc (captureScreenshot (sc_shotBefore sc) (Some ''before-scenario'') r) of
          (Inl error, r1) \<Rightarrow> (Inl error, r1)
        | (Inr u, r1) \<Rightarrow>
            (Inr (),
             logResponseSummary (captureScreenshot (sc_shotAfter sc) (Some ''after-scenario'') r1)))"

definition tryBlock :: "script \<Rightarrow> runner \<Rightarrow> (string + unit) \<times> runner" where
  "tryBlock sc r =
     (case toCriticalCheck sc r of
        (Inl error, r1) \<Rightarrow> (Inl error, r1)
      | (Inr u, r1) \<Rightarrow> fromCriticalCheck sc r1)"

definition catchBlock :: "(string + unit) \<times> runner \<Rightarrow> (string + unit) \<times> runner" where
  "catchBlock p =
     (case p of
        (Inl error, r) \<Rightarrow> (Inr (), runnerLog Error (''Error: '' @ error) r)
      | (Inr u, r) \<Rightarrow> (Inr (), r))"

definition finallyBlock :: "(string + unit) \<times> runner \<Rightarrow> (string + unit) \<times> runner" where
  "finallyBlock p =
     (case p of
        (res, r) \<Rightarrow> (res, if rn_context r then doCall ContextClose r else r))"

text \<open>
  \<open>run\<close> returns how its promise settles (\<open>Inr ()\<close>: it resolves) and the runner it
  leaves.
\<close>

definition run :: "script \<Rightarrow> runner \<Rightarrow> (string + unit) \<times> runner" where
  "run sc r = finallyBlock (catchBlock (tryBlock sc r))"

section \<open>The launcher\<close>

definition RUNNER_COUNT :: nat where
  "RUNNER_COUNT = 1"

text \<open>
  One element of \<open>runnerPromises\<close>: how the promise of the callback for index \<open>i\<close>
  settles, and the calls its session makes.  \<open>pick\<close> is the index
  \<open>Math.floor(Math.random() * URLS.length)\<close>; an index outside the list stands for the
  \<open>undefined\<close> that an empty list yields, and then, as for an empty URL, the callback
  returns without creating a runner.
\<close>

definition runnerPromise :: "string list \<Rightarrow> nat \<Rightarrow> script \<Rightarrow> nat \<Rightarrow> (string + unit) \<times> call list" where
  "runnerPromise URLS pick sc i =
     (if pick < length URLS \<and> URLS ! pick \<noteq> []
      then (case run sc (newRunner (URLS ! pick) (int i)) of (res, r) \<Rightarrow> (res, rn_calls r))
      else (Inr (), []))"

text \<open>
  The sessions run concurrently: each makes its calls in its own order, and the calls of
  different sessions interleave.  A schedule names, step by step, the session that makes
  its next call; when the schedule is used up, the sessions that are not finished run to
  their end one after the other.
\<close>

fun drain :: "nat \<Rightarrow> call list list \<Rightarrow> (nat \<times> call) list" where
  "drain i [] = []"
| "drain i (t # ts) = map (Pair i) t @ drain (Suc i) ts"

fun interleave :: "nat list \<Rightarrow> call list list \<Rightarrow> (nat \<times> call) list" where
  "interleave [] ts = drain 0 ts"
| "interleave (i # sched) ts =
     (if i < length ts
      then (case ts ! i of
              [] \<Rightarrow> interleave sched ts
            | c # cs \<Rightarrow> (i, c) # interleave sched (ts[i := cs]))
      else interleave sched ts)"

datatype who = Launcher | Session nat

text \<open>
  \<open>await Promise.all(runnerPromises)\<close> inside \<open>try\<close>, and \<open>browser.close()\<close> in
  \<open>finally\<close>.  \<open>Promise.all\<close> rejects as soon as one promise rejects, that is right
  after the last call of the first session whose promise rejects; it resolves when every
  session has finished.  The browser is closed at that point; sessions that are not
  finished go on.
\<close>

fun closeWhenSettled :: "(nat \<Rightarrow> bool) \<Rightarrow> (nat \<times> call) list \<Rightarrow> (who \<times> call) list" where
  "closeWhenSettled rejects [] = [(Launcher, BrowserClose)]"
| "closeWhenSettled rejects ((i, c) # tr) =
     (if rejects i \<and> i \<notin> set (map fst tr)
      then (Session i, c) # (Launcher, BrowserClose) # map (\<lambda>(j, d). (Session j, d)) tr
      else (Session i, c) # closeWhenSettled rejects tr)"

text \<open>
  The launcher for \<open>count\<close> sessions: the calls of the whole program on the browser, in
  order, each with who makes it.  \<open>picks i\<close> and \<open>scripts i\<close> are the random index and
  the environment of session \<open>i\<close>.  \<open>chromium.launch\<close> and \<open>browser.close()\<close> resolve
  (when the launch rejects the program makes no other call).
\<close>

definition launch ::
  "nat \<Rightarrow> string list \<Rightarrow> (nat \<Rightarrow> nat) \<Rightarrow> (nat \<Rightarrow> script) \<Rightarrow> nat list \<Rightarrow> (who \<times> call) list" where
  "launch count URLS picks scripts sched =
     (let runnerPromises = map (\<lambda>i. runnerPromise URLS (picks i) (scripts i) i) [0..<count];
          rejects = (\<lambda>i. i < count \<and> isl (fst (runnerPromises ! i)))
      in (Launcher, Launch) #
         closeWhenSettled rejects (interleave sched (map snd runnerPromises)))"

definition main :: "string list \<Rightarrow> (nat \<Rightarrow> nat) \<Rightarrow> (nat \<Rightarrow> script) \<Rightarrow> nat list \<Rightarrow> (who \<times> call) list" where
  "main URLS picks scripts sched = launch RUNNER_COUNT URLS picks scripts sched"

text \<open>The calls of one session, in a trace of the program.\<close>

definition callsOf :: "nat \<Rightarrow> (who \<times> call) list \<Rightarrow> call list" where
  "callsOf i tr = map snd (filter (\<lambda>p. fst p = Session i) tr)"

section \<open>Specification devices\<close>

text \<open>
  To observe which hooks a handler of the base class calls, it is run on an instance
  whose hooks do nothing but record their own name, in call order.
\<close>

datatype hookName =
    OnConsoleError | OnConsoleWarning | OnConsoleLog | OnRequest
  | OnSuccess | OnClientError | OnServerError

record spy = eventHandler +
  fired :: "hookName list"

definition fire :: "hookName \<Rightarrow> spy \<Rightarrow> spy" where
  "fire n h = h\<lparr>fired := fired h @ [n]\<rparr>"

definition spyHooks :: "spy hooks" where
  "spyHooks =
     \<lparr> hook_onConsoleError = (\<lambda>message. fire OnConsoleError),
       hook_onConsoleWarning = (\<lambda>message. fire OnConsoleWarning),
       hook_onConsoleLog = (\<lambda>message. fire OnConsoleLog),
       hook_onRequest = (\<lambda>request. fire OnRequest),
       hook_onSuccess = (\<lambda>response. fire OnSuccess),
       hook_onClientError = (\<lambda>response. fire OnClientError),
       hook_onServerError = (\<lambda>response. fire OnServerError) \<rparr>"

definition newSpy :: "logger \<Rightarrow> logger \<Rightarrow> spy" where
  "newSpy cl nl = \<lparr> consoleLogger = cl, networkLogger = nl, fired = [] \<rparr>"

text \<open>
  \<open>observedFor n e\<close>: the event \<open>e\<close> is a response that reaches endpoint evaluation
  (its status is in the success band) and that the evaluation attributes to the name \<open>n\<close>.
\<close>

fun observedFor :: "string \<Rightarrow> event \<Rightarrow> bool" where
  "observedFor n (ResponseEvent r) =
     (200 \<le> resp_status r \<and> resp_status r < 300 \<and>
      find (\<lambda>e. endsWith (resp_url r) e) criticalEndpoints = Some n)"
| "observedFor n _ = False"

text \<open>
  Two invariants of the proofs: every name in the map or held by a suspended call is one
  of the fixed names, with one entry per name; and a given name occurs in neither.
\<close>

definition keysWithin :: "customEventHandler \<Rightarrow> bool" where
  "keysWithin h =
     (fst ` set (criticalEndpointResponses h) \<subseteq> set criticalEndpoints \<and>
      distinct (map fst (criticalEndpointResponses h)) \<and>
      fst ` set (suspended h) \<subseteq> set criticalEndpoints)"

definition absentFrom :: "string \<Rightarrow> customEventHandler \<Rightarrow> bool" where
  "absentFrom n h =
     (n \<notin> fst ` set (criticalEndpointResponses h) \<and> n \<notin> fst ` set (suspended h))"


text \<open>
  The four responses of scenario A, each at any URL that ends with its endpoint name and
  of any resource type; the \<open>/health\<close> response has any body or none.
\<close>

definition getStoreOk :: "string \<Rightarrow> string \<Rightarrow> response" where
  "getStoreOk base rtype =
     \<lparr> resp_status = 200, resp_url = base @ ''/getStore'', resp_resourceType = rtype,
       resp_json = Inr (JObj [(''error'', JBool False)]) \<rparr>"

definition getTokenOk :: "string \<Rightarrow> string \<Rightarrow> response" where
  "getTokenOk base rtype =
     \<lparr> resp_status = 200, resp_url = base @ ''/getToken'', resp_resourceType = rtype,
       resp_json = Inr (JObj [(''error'', JBool False)]) \<rparr>"

definition healthOk :: "string \<Rightarrow> string \<Rightarrow> string + json \<Rightarrow> response" where
  "healthOk base rtype body =
     \<lparr> resp_status = 200, resp_url = base @ ''/health'', resp_resourceType = rtype,
       resp_json = body \<rparr>"

definition getOrderTypeDataError :: "string \<Rightarrow> string \<Rightarrow> response" where
  "getOrderTypeDataError base rtype =
     \<lparr> resp_status = 200, resp_url = base @ ''/getOrderTypeData'', resp_resourceType = rtype,
       resp_json = Inr (JObj [(''error'', JBool True)]) \<rparr>"

text \<open>The responses that a sequence of steps delivers, in order.\<close>

fun responsesOf :: "(runtime \<times> event) list \<Rightarrow> response list" where
  "responsesOf [] = []"
| "responsesOf ((rt, ResponseEvent r) # es) = r # responsesOf es"
| "responsesOf (_ # es) = responsesOf es"

text \<open>
  For the proof of scenario A: the stored \<open>/health\<close> record is the synthetic one, the
  stored \<open>/getOrderTypeData\<close> record holds the error body, and the
  \<open>/getOrderTypeData\<close> call either still waits for its body or has run to its end.
\<close>

definition healthSynthetic :: "string \<Rightarrow> customEventHandler \<Rightarrow> bool" where
  "healthSynthetic u h =
     (\<exists>ts. getEndpointResponse ''/health'' h =
        Some \<lparr> obs_url = u, obs_timestamp = ts, obs_status = 200,
               obs_body = Some (JStr ''OK (200)''), obs_error = None \<rparr>)"

definition orderErrorStored :: "string \<Rightarrow> customEventHandler \<Rightarrow> bool" where
  "orderErrorStored u h =
     (\<exists>ts. getEndpointResponse ''/getOrderTypeData'' h =
        Some \<lparr> obs_url = u, obs_timestamp = ts, obs_status = 200,
               obs_body = Some (JObj [(''error'', JBool True)]), obs_error = None \<rparr>)"

definition orderSettled :: "response \<Rightarrow> customEventHandler \<Rightarrow> bool" where
  "orderSettled od h =
     ((''/getOrderTypeData'', od) \<in> set (suspended h) \<or>
      (criticalEndpointFailed h \<and> orderErrorStored (resp_url od) h))"


text \<open>The calls that can be suspended during scenario A.\<close>

definition scenarioA_calls :: "response \<Rightarrow> response \<Rightarrow> response \<Rightarrow> (string \<times> response) set" where
  "scenarioA_calls s t od =
     {(''/getStore'', s), (''/getToken'', t), (''/getOrderTypeData'', od)}"


text \<open>
  For the proofs about \<open>run\<close>: \<open>r'\<close> comes from \<open>r\<close> by more calls, all of them
  satisfying \<open>P\<close>, with the same context, page, id and URL.
\<close>

definition adds :: "(call \<Rightarrow> bool) \<Rightarrow> runner \<Rightarrow> runner \<Rightarrow> bool" where
  "adds P r r' =
     ((\<exists>cs. rn_calls r' = rn_calls r @ cs \<and> list_all P cs) \<and>
      rn_context r' = rn_context r \<and> rn_page r' = rn_page r \<and>
      rn_id r' = rn_id r \<and> rn_url r' = rn_url r)"

definition pageCall :: "call \<Rightarrow> bool" where
  "pageCall c = (c \<noteq> ScenarioExecute \<and> c \<noteq> ContextClose \<and> c \<noteq> BrowserClose \<and> c \<noteq> Launch \<and>
                 c \<noteq> NewContext)"

definition sessionCall :: "call \<Rightarrow> bool" where
  "sessionCall c = (c \<noteq> ContextClose \<and> c \<noteq> BrowserClose \<and> c \<noteq> Launch \<and> c \<noteq> NewContext)"


text \<open>\<open>keeps r r'\<close>: every line of the console log of \<open>r\<close> is still, in \<open>r'\<close>, where it was.\<close>

definition keeps :: "runner \<Rightarrow> runner \<Rightarrow> bool" where
  "keeps r r' =
     (\<exists>ls. consoleLogger (rn_eventHandler r') = consoleLogger (rn_eventHandler r) @ ls)"


text \<open>
  A runtime, responses and scripts for the concrete examples.  In a sample script the
  page delivers the given steps while the run waits for the \<open>/health\<close> response;
  \<open>found\<close> says whether the iframe element exists.
\<close>

definition sampleRuntime :: runtime where
  "sampleRuntime =
     \<lparr> dateNow = ''2025-01-01T00:00:00.000Z'',
       typeErrorText = ''TypeError: null is not an object'',
       jsonStringify = (\<lambda>v. ''[body]'') \<rparr>"

definition sampleResponse :: "string \<Rightarrow> int \<Rightarrow> string + json \<Rightarrow> response" where
  "sampleResponse path st body =
     \<lparr> resp_status = st, resp_url = ''https://shop.example'' @ path,
       resp_resourceType = ''fetch'', resp_json = body \<rparr>"

text \<open>
  What the page delivers while a sample run waits: the \<open>/health\<close> response with status
  200, and before it, in the failing load, a \<open>/getOrderTypeData\<close> response whose body
  \<open>{error: true}\<close> arrives at once.
\<close>

definition healthyLoad :: "(runtime \<times> event) list" where
  "healthyLoad =
     [(sampleRuntime, ResponseEvent (sampleResponse ''/health'' 200 (Inl ''no body'')))]"

definition failingLoad :: "(runtime \<times> event) list" where
  "failingLoad =
     [(sampleRuntime,
       ResponseEvent (sampleResponse ''/getOrderTypeData'' 200 (Inr (JObj [(''error'', JBool True)])))),
      (sampleRuntime, BodyArrives 0),
      (sampleRuntime, ResponseEvent (sampleResponse ''/health'' 200 (Inl ''no body'')))]"

definition sampleShot :: "bool \<Rightarrow> shot" where
  "sampleShot found =
     \<lparr> shot_dir = ''/work/screenshots'', shot_now = ''2025-01-01T00:00:00.000Z'',
       shot_query = ([], Inr found), shot_capture = ([], Inr ()) \<rparr>"

definition sampleScript :: "(runtime \<times> event) list \<Rightarrow> bool \<Rightarrow> string + unit \<Rightarrow> script" where
  "sampleScript duringWait found scenario =
     \<lparr> sc_newContext = Inr (), sc_newPage = Inr (),
       sc_goto = ([], Inr ()),
       sc_waitForSelector = ([], if found then Inr () else Inl ''Timeout 10000ms exceeded''),
       sc_query = ([], Inr found),
       sc_contentFrame = ([], Inr (Some ''https://shop.example/app'')),
       sc_waitForLoadState = ([], Inr ()),
       sc_waitForResponse = (duringWait, Inr ()),
       sc_settle = [],
       sc_shotAbort = sampleShot found,
       sc_shotBefore = sampleShot found,
       sc_shotAfter = sampleShot found,
       sc_scenario = ([], scenario),
       sc_scenarioLog = [] \<rparr>"


text \<open>Scenario C: three sessions; the scenario of session 1 throws.\<close>

definition scenarioC_scripts :: "nat \<Rightarrow> script" where
  "scenarioC_scripts i =
     sampleScript healthyLoad True (if i = 1 then Inl ''Error: button not found'' else Inr ())"


section \<open>What a step leaves unchanged\<close>

lemma consoleLog_frame [simp]:
  "networkLogger (consoleLog l m h) = networkLogger h"
  "errorCount (consoleLog l m h) = errorCount h"
  "requestCount (consoleLog l m h) = requestCount h"
  "serverErrorCount (consoleLog l m h) = serverErrorCount h"
  "criticalEndpointFailed (consoleLog l m h) = criticalEndpointFailed h"
  "criticalEndpointResponses (consoleLog l m h) = criticalEndpointResponses h"
  "healthCheckPassed (consoleLog l m h) = healthCheckPassed h"
  "suspended (consoleLog l m h) = suspended h"
  by (simp_all add: consoleLog_def)

lemma networkLog_frame [simp]:
  "consoleLogger (networkLog l m h) = consoleLogger h"
  "errorCount (networkLog l m h) = errorCount h"
  "requestCount (networkLog l m h) = requestCount h"
  "serverErrorCount (networkLog l m h) = serverErrorCount h"
  "criticalEndpointFailed (networkLog l m h) = criticalEndpointFailed h"
  "criticalEndpointResponses (networkLog l m h) = criticalEndpointResponses h"
  "healthCheckPassed (networkLog l m h) = healthCheckPassed h"
  "suspended (networkLog l m h) = suspended h"
  by (simp_all add: networkLog_def)

lemma setResponse_frame [simp]:
  "consoleLogger (setResponse n obs h) = consoleLogger h"
  "networkLogger (setResponse n obs h) = networkLogger h"
  "errorCount (setResponse n obs h) = errorCount h"
  "requestCount (setResponse n obs h) = requestCount h"
  "serverErrorCount (setResponse n obs h) = serverErrorCount h"
  "criticalEndpointFailed (setResponse n obs h) = criticalEndpointFailed h"
  "healthCheckPassed (setResponse n obs h) = healthCheckPassed h"
  "suspended (setResponse n obs h) = suspended h"
  "criticalEndpointResponses (setResponse n obs h) = AList.update n obs (criticalEndpointResponses h)"
  by (simp_all add: setResponse_def)

lemma onConsoleError_frame [simp]:
  "networkLogger (onConsoleError m h) = networkLogger h"
  "errorCount (onConsoleError m h) = errorCount h + 1"
  "requestCount (onConsoleError m h) = requestCount h"
  "serverErrorCount (onConsoleError m h) = serverErrorCount h"
  "criticalEndpointFailed (onConsoleError m h) = criticalEndpointFailed h"
  "criticalEndpointResponses (onConsoleError m h) = criticalEndpointResponses h"
  "healthCheckPassed (onConsoleError m h) = healthCheckPassed h"
  "suspended (onConsoleError m h) = suspended h"
  by (simp_all add: onConsoleError_def Let_def)

lemma onRequest_frame [simp]:
  "consoleLogger (onRequest q h) = consoleLogger h"
  "errorCount (onRequest q h) = errorCount h"
  "requestCount (onRequest q h) = requestCount h + 1"
  "serverErrorCount (onRequest q h) = serverErrorCount h"
  "criticalEndpointFailed (onRequest q h) = criticalEndpointFailed h"
  "criticalEndpointResponses (onRequest q h) = criticalEndpointResponses h"
  "healthCheckPassed (onRequest q h) = healthCheckPassed h"
  "suspended (onRequest q h) = suspended h"
  by (simp_all add: onRequest_def Let_def)

lemma onServerError_frame [simp]:
  "consoleLogger (onServerError r h) = consoleLogger h"
  "errorCount (onServerError r h) = errorCount h"
  "requestCount (onServerError r h) = requestCount h"
  "serverErrorCount (onServerError r h) = serverErrorCount h + 1"
  "criticalEndpointFailed (onServerError r h) = criticalEndpointFailed h"
  "criticalEndpointResponses (onServerError r h) = criticalEndpointResponses h"
  "healthCheckPassed (onServerError r h) = healthCheckPassed h"
  "suspended (onServerError r h) = suspended h"
  by (simp_all add: onServerError_def Let_def)

lemma onClientError_frame [simp]:
  "consoleLogger (onClientError r h) = consoleLogger h"
  "errorCount (onClientError r h) = errorCount h"
  "requestCount (onClientError r h) = requestCount h"
  "serverErrorCount (onClientError r h) = serverErrorCount h"
  "criticalEndpointFailed (onClientError r h) = criticalEndpointFailed h"
  "criticalEndpointResponses (onClientError r h) = criticalEndpointResponses h"
  "healthCheckPassed (onClientError r h) = healthCheckPassed h"
  "suspended (onClientError r h) = suspended h"
  by (simp_all add: onClientError_def Let_def)

lemma checkCriticalEndpoint_counters [simp]:
  "consoleLogger (checkCriticalEndpoint rt r h) = consoleLogger h"
  "errorCount (checkCriticalEndpoint rt r h) = errorCount h"
  "requestCount (checkCriticalEndpoint rt r h) = requestCount h"
  "serverErrorCount (checkCriticalEndpoint rt r h) = serverErrorCount h"
  by (simp_all add: checkCriticalEndpoint_def Let_def split: option.splits)

lemma jsonCatch_frame [simp]:
  "consoleLogger (jsonCatch rt n r e h) = consoleLogger h"
  "errorCount (jsonCatch rt n r e h) = errorCount h"
  "requestCount (jsonCatch rt n r e h) = requestCount h"
  "serverErrorCount (jsonCatch rt n r e h) = serverErrorCount h"
  "criticalEndpointFailed (jsonCatch rt n r e h) = True"
  "healthCheckPassed (jsonCatch rt n r e h) = healthCheckPassed h"
  "suspended (jsonCatch rt n r e h) = suspended h"
  by (simp_all add: jsonCatch_def)

lemma resume_counters [simp]:
  "consoleLogger (checkCriticalEndpoint_resume rt n r h) = consoleLogger h"
  "errorCount (checkCriticalEndpoint_resume rt n r h) = errorCount h"
  "requestCount (checkCriticalEndpoint_resume rt n r h) = requestCount h"
  "serverErrorCount (checkCriticalEndpoint_resume rt n r h) = serverErrorCount h"
  "healthCheckPassed (checkCriticalEndpoint_resume rt n r h) = healthCheckPassed h"
  "suspended (checkCriticalEndpoint_resume rt n r h) = suspended h"
  by (simp_all add: checkCriticalEndpoint_resume_def Let_def split: sum.splits)

lemma onSuccess_counters [simp]:
  "consoleLogger (onSuccess rt r h) = consoleLogger h"
  "errorCount (onSuccess rt r h) = errorCount h"
  "requestCount (onSuccess rt r h) = requestCount h"
  "serverErrorCount (onSuccess rt r h) = serverErrorCount h"
  by (simp_all add: onSuccess_def Let_def)


lemma fired_networkLog [simp]: "fired (networkLog l m h) = fired h"
  by (simp add: networkLog_def)

section \<open>Evaluating concrete sessions\<close>

lemma customHooks_sel [simp]:
  "hook_onConsoleError (customHooks rt) = onConsoleError"
  "hook_onConsoleWarning (customHooks rt) = (\<lambda>message h. h)"
  "hook_onConsoleLog (customHooks rt) = (\<lambda>message h. h)"
  "hook_onRequest (customHooks rt) = onRequest"
  "hook_onSuccess (customHooks rt) = onSuccess rt"
  "hook_onClientError (customHooks rt) = onClientError"
  "hook_onServerError (customHooks rt) = onServerError"
  by (simp_all add: customHooks_def baseHooks_def)

lemmas eval_simps =
  hasCriticalFailure_def hasHealthCheckPassed_def getEndpointResponse_def
  getAllResponsesAsObject_def getStats_def
  newCustomEventHandler_def sampleRuntime_def sampleResponse_def
  handleConsole_def handleRequest_def handleResponse_def
  onSuccess_def checkCriticalEndpoint_def checkCriticalEndpoint_resume_def jsonCatch_def
  setResponse_def networkLog_def consoleLog_def
  onConsoleError_def onRequest_def onServerError_def onClientError_def
  criticalEndpoints_def endsWith_def includes_str_def suffix_to_prefix sublist_Cons_right
  showInt_def showNat.simps digitChar_def Let_def

section \<open>Status bands\<close>

text \<open>
  Claim C2, as the code has it.  For a response of status \<open>s\<close>, \<open>handleResponse\<close>
  calls the success hook alone when \<open>200 \<le> s < 300\<close>, the client-error hook alone
  when \<open>400 \<le> s < 500\<close>, the server-error hook alone when \<open>500 \<le> s\<close> (with no upper
  bound), and no hook when \<open>s < 200\<close> or \<open>300 \<le> s < 400\<close>.
\<close>

theorem status_band_classification:
  "fired (handleResponse spyHooks response (newSpy cl nl)) =
     (if 200 \<le> resp_status response \<and> resp_status response < 300 then [OnSuccess]
      else if 400 \<le> resp_status response \<and> resp_status response < 500 then [OnClientError]
      else if 500 \<le> resp_status response then [OnServerError]
      else [])"
  by (simp add: handleResponse_def spyHooks_def fire_def newSpy_def Let_def)

text \<open>
  The claim as stated also has no hook fire for a status outside \<open>[200,600)\<close>.  At
  status 600, which is outside, the server-error hook fires.
\<close>

theorem status_600_fires_server_error:
  "\<not> (200 \<le> (600::int) \<and> (600::int) < 600) \<and>
   fired (handleResponse spyHooks
            \<lparr> resp_status = 600, resp_url = ''https://shop.example/api/cart'',
              resp_resourceType = ''fetch'', resp_json = Inl ''no body'' \<rparr>
            (newSpy [] [])) = [OnServerError]"
  by (simp add: handleResponse_def spyHooks_def fire_def newSpy_def Let_def)

section \<open>The sticky flags\<close>

lemma checkCriticalEndpoint_flags:
  "criticalEndpointFailed h \<Longrightarrow> criticalEndpointFailed (checkCriticalEndpoint rt r h)"
  "healthCheckPassed h \<Longrightarrow> healthCheckPassed (checkCriticalEndpoint rt r h)"
  by (simp_all add: checkCriticalEndpoint_def Let_def split: option.splits)

lemma resume_failed_mono:
  "criticalEndpointFailed h \<Longrightarrow> criticalEndpointFailed (checkCriticalEndpoint_resume rt n r h)"
  by (simp add: checkCriticalEndpoint_resume_def Let_def split: sum.splits)

lemma onSuccess_flags:
  "criticalEndpointFailed h \<Longrightarrow> criticalEndpointFailed (onSuccess rt r h)"
  "healthCheckPassed h \<Longrightarrow> healthCheckPassed (onSuccess rt r h)"
  by (simp_all add: onSuccess_def Let_def checkCriticalEndpoint_flags)

lemma deliver_failed_mono:
  "criticalEndpointFailed h \<Longrightarrow> criticalEndpointFailed (deliver rt e h)"
  by (cases e)
     (simp_all add: handleConsole_def handleRequest_def handleResponse_def Let_def
        onSuccess_flags resume_failed_mono)

lemma deliver_health_mono:
  "healthCheckPassed h \<Longrightarrow> healthCheckPassed (deliver rt e h)"
  by (cases e)
     (simp_all add: handleConsole_def handleRequest_def handleResponse_def Let_def
        onSuccess_flags)

lemma deliverAll_failed_mono:
  "criticalEndpointFailed h \<Longrightarrow> criticalEndpointFailed (deliverAll es h)"
  by (induction es arbitrary: h) (auto simp: deliver_failed_mono)

lemma deliverAll_health_mono:
  "healthCheckPassed h \<Longrightarrow> healthCheckPassed (deliverAll es h)"
  by (induction es arbitrary: h) (auto simp: deliver_health_mono)

text \<open>
  Claim C4.  Both flags are false in a new handler; whatever the session then delivers
  (console messages, requests, responses, arriving bodies, in any order), a flag that is
  true stays true.  The two queries return the flag and have no state to change.
\<close>

theorem flags_monotone:
  "\<not> hasCriticalFailure (newCustomEventHandler cl nl) \<and>
   \<not> hasHealthCheckPassed (newCustomEventHandler cl nl) \<and>
   (hasCriticalFailure h \<longrightarrow> hasCriticalFailure (deliverAll es h)) \<and>
   (hasHealthCheckPassed h \<longrightarrow> hasHealthCheckPassed (deliverAll es h))"
  by (simp add: hasCriticalFailure_def hasHealthCheckPassed_def newCustomEventHandler_def
        deliverAll_failed_mono deliverAll_health_mono)

theorem flags_monotone_witness:
  "hasCriticalFailure
     (deliverAll [(sampleRuntime, ResponseEvent (sampleResponse ''/health'' 204 (Inl ''no body''))),
                  (sampleRuntime, ResponseEvent (sampleResponse ''/health'' 200 (Inl ''no body'')))]
        (newCustomEventHandler [] [])) \<and>
   hasHealthCheckPassed
     (deliverAll [(sampleRuntime, ResponseEvent (sampleResponse ''/health'' 204 (Inl ''no body''))),
                  (sampleRuntime, ResponseEvent (sampleResponse ''/health'' 200 (Inl ''no body'')))]
        (newCustomEventHandler [] [])) \<and>
   hasCriticalFailure
     (deliverAll [(sampleRuntime, ResponseEvent (sampleResponse ''/getStore'' 200 (Inr (JObj [(''error'', JBool False)])))),
                  (sampleRuntime, BodyArrives 0)]
        (deliverAll [(sampleRuntime, ResponseEvent (sampleResponse ''/health'' 204 (Inl ''no body''))),
                     (sampleRuntime, ResponseEvent (sampleResponse ''/health'' 200 (Inl ''no body'')))]
           (newCustomEventHandler [] []))) \<and>
   hasHealthCheckPassed
     (deliverAll [(sampleRuntime, ResponseEvent (sampleResponse ''/getStore'' 200 (Inr (JObj [(''error'', JBool False)])))),
                  (sampleRuntime, BodyArrives 0)]
        (deliverAll [(sampleRuntime, ResponseEvent (sampleResponse ''/health'' 204 (Inl ''no body''))),
                     (sampleRuntime, ResponseEvent (sampleResponse ''/health'' 200 (Inl ''no body'')))]
           (newCustomEventHandler [] [])))"
proof -
  let ?h = "deliverAll [(sampleRuntime, ResponseEvent (sampleResponse ''/health'' 204 (Inl ''no body''))),
                  (sampleRuntime, ResponseEvent (sampleResponse ''/health'' 200 (Inl ''no body'')))]
        (newCustomEventHandler [] [])"
  have a: "hasCriticalFailure ?h"
    by (simp add: eval_simps)
  have b: "hasHealthCheckPassed ?h"
    by (simp add: eval_simps)
  from a b flags_monotone [of "[]" "[]" ?h] show ?thesis by blast
qed

section \<open>The counters\<close>

lemma deliver_counters:
  "requestCount (deliver rt e h) = requestCount h \<or> requestCount (deliver rt e h) = requestCount h + 1"
  "errorCount (deliver rt e h) = errorCount h \<or> errorCount (deliver rt e h) = errorCount h + 1"
  "serverErrorCount (deliver rt e h) = serverErrorCount h \<or> serverErrorCount (deliver rt e h) = serverErrorCount h + 1"
  by (cases e; simp add: handleConsole_def handleRequest_def handleResponse_def Let_def)+

lemma deliverAll_requestCount: "requestCount h \<le> requestCount (deliverAll es h)"
proof (induction es arbitrary: h)
  case Nil
  show ?case by simp
next
  case (Cons x es)
  obtain rt e where x: "x = (rt, e)" by (cases x)
  have "requestCount h \<le> requestCount (deliver rt e h)"
    using deliver_counters(1) [of rt e h] by auto
  also have "\<dots> \<le> requestCount (deliverAll es (deliver rt e h))" by (rule Cons.IH)
  finally show ?case by (simp add: x)
qed

lemma deliverAll_errorCount: "errorCount h \<le> errorCount (deliverAll es h)"
proof (induction es arbitrary: h)
  case Nil
  show ?case by simp
next
  case (Cons x es)
  obtain rt e where x: "x = (rt, e)" by (cases x)
  have "errorCount h \<le> errorCount (deliver rt e h)"
    using deliver_counters(2) [of rt e h] by auto
  also have "\<dots> \<le> errorCount (deliverAll es (deliver rt e h))" by (rule Cons.IH)
  finally show ?case by (simp add: x)
qed

lemma deliverAll_serverErrorCount: "serverErrorCount h \<le> serverErrorCount (deliverAll es h)"
proof (induction es arbitrary: h)
  case Nil
  show ?case by simp
next
  case (Cons x es)
  obtain rt e where x: "x = (rt, e)" by (cases x)
  have "serverErrorCount h \<le> serverErrorCount (deliver rt e h)"
    using deliver_counters(3) [of rt e h] by auto
  also have "\<dots> \<le> serverErrorCount (deliverAll es (deliver rt e h))" by (rule Cons.IH)
  finally show ?case by (simp add: x)
qed

text \<open>
  Claim C5.  Each step of a session (a console message, a request, a response, an
  arriving body) leaves each of the three counters that \<open>getStats\<close> reports unchanged
  or adds one to it, so over any sequence of steps no counter decreases.
\<close>

theorem counters_non_decreasing:
  "(totalRequests (getStats (deliver rt e h)) = totalRequests (getStats h) \<or>
    totalRequests (getStats (deliver rt e h)) = totalRequests (getStats h) + 1) \<and>
   (consoleErrors (getStats (deliver rt e h)) = consoleErrors (getStats h) \<or>
    consoleErrors (getStats (deliver rt e h)) = consoleErrors (getStats h) + 1) \<and>
   (serverErrors (getStats (deliver rt e h)) = serverErrors (getStats h) \<or>
    serverErrors (getStats (deliver rt e h)) = serverErrors (getStats h) + 1) \<and>
   totalRequests (getStats h) \<le> totalRequests (getStats (deliverAll es h)) \<and>
   consoleErrors (getStats h) \<le> consoleErrors (getStats (deliverAll es h)) \<and>
   serverErrors (getStats h) \<le> serverErrors (getStats (deliverAll es h))"
  using deliver_counters [of rt e h]
  by (simp add: getStats_def deliverAll_requestCount deliverAll_errorCount
        deliverAll_serverErrorCount)

section \<open>The observation map\<close>

lemma find_in_set: "find P xs = Some x \<Longrightarrow> x \<in> set xs"
  by (induction xs) (auto split: if_splits)

lemma onSuccess_eq: "onSuccess rt r h = checkCriticalEndpoint rt r h"
proof (cases "list_ex (\<lambda>endpoint. endsWith (resp_url r) endpoint) criticalEndpoints")
  case True
  then show ?thesis by (simp add: onSuccess_def)
next
  case False
  then have "find (\<lambda>e. endsWith (resp_url r) e) criticalEndpoints = None"
    by (simp add: find_None_iff list_ex_iff)
  with False show ?thesis by (simp add: onSuccess_def checkCriticalEndpoint_def)
qed

lemma endsWith_append [simp]: "endsWith (b @ e) e"
  by (simp add: endsWith_def suffix_def)

lemma endsWith_last:
  assumes "endsWith (b @ t) e" "e \<noteq> []" "t \<noteq> []"
  shows "last e = last t"
proof -
  from assms(1) obtain p where "b @ t = p @ e" by (auto simp: endsWith_def suffix_def)
  then have "last (b @ t) = last (p @ e)" by simp
  with assms(2,3) show ?thesis by simp
qed

lemma find_health: "find (\<lambda>e. endsWith (b @ ''/health'') e) criticalEndpoints = Some ''/health''"
  by (auto simp: criticalEndpoints_def dest: endsWith_last)

lemma health_200_stores:
  assumes "resp_status r = 200" "resp_url r = b @ ''/health''"
  shows "suspended (handleResponse (customHooks rt) r h) = suspended h"
    and "criticalEndpointResponses (handleResponse (customHooks rt) r h) =
           AList.update ''/health''
             \<lparr> obs_url = b @ ''/health'', obs_timestamp = dateNow rt, obs_status = 200,
               obs_body = Some (JStr ''OK (200)''), obs_error = None \<rparr>
             (criticalEndpointResponses h)"
    and "criticalEndpointFailed (handleResponse (customHooks rt) r h) = criticalEndpointFailed h"
  using assms
  by (simp_all add: handleResponse_def Let_def onSuccess_eq checkCriticalEndpoint_def find_health)

lemma keys_update_subset:
  "fst ` set al \<subseteq> A \<Longrightarrow> k \<in> A \<Longrightarrow> fst ` set (AList.update k v al) \<subseteq> A"
  by (simp add: dom_update)

lemma keysWithin_log [simp]:
  "keysWithin (networkLog l m h) = keysWithin h"
  "keysWithin (consoleLog l m h) = keysWithin h"
  by (simp_all add: keysWithin_def)

lemma keysWithin_setResponse:
  "keysWithin h \<Longrightarrow> n \<in> set criticalEndpoints \<Longrightarrow> keysWithin (setResponse n obs h)"
  unfolding keysWithin_def
  by (simp add: keys_update_subset distinct_update)

lemma keysWithin_flag [simp]:
  "keysWithin (h\<lparr>criticalEndpointFailed := b\<rparr>) = keysWithin h"
  "keysWithin (h\<lparr>healthCheckPassed := b\<rparr>) = keysWithin h"
  by (simp_all add: keysWithin_def)

lemma keysWithin_check: "keysWithin h \<Longrightarrow> keysWithin (checkCriticalEndpoint rt r h)"
proof (cases "find (\<lambda>e. endsWith (resp_url r) e) criticalEndpoints")
  case None
  assume "keysWithin h"
  with None show ?thesis by (simp add: checkCriticalEndpoint_def)
next
  case (Some n)
  assume k: "keysWithin h"
  from Some have n: "n \<in> set criticalEndpoints" by (rule find_in_set)
  show ?thesis
  proof (cases "n = ''/health''")
    case True
    with Some k n show ?thesis
      by (simp add: checkCriticalEndpoint_def Let_def keysWithin_setResponse)
  next
    case False
    with Some k n show ?thesis
      by (simp add: checkCriticalEndpoint_def Let_def keysWithin_def)
  qed
qed

lemma keysWithin_jsonCatch:
  "keysWithin h \<Longrightarrow> n \<in> set criticalEndpoints \<Longrightarrow> keysWithin (jsonCatch rt n r e h)"
  by (simp add: jsonCatch_def keysWithin_setResponse)

lemma keysWithin_resume:
  "keysWithin h \<Longrightarrow> n \<in> set criticalEndpoints \<Longrightarrow> keysWithin (checkCriticalEndpoint_resume rt n r h)"
  by (simp add: checkCriticalEndpoint_resume_def Let_def keysWithin_setResponse keysWithin_jsonCatch
        split: sum.splits)

lemma keysWithin_hooks [simp]:
  "keysWithin (onConsoleError m h) = keysWithin h"
  "keysWithin (onRequest q h) = keysWithin h"
  "keysWithin (onServerError r h) = keysWithin h"
  "keysWithin (onClientError r h) = keysWithin h"
  by (simp_all add: keysWithin_def)

lemma keysWithin_unsuspend:
  assumes "keysWithin h"
  shows "keysWithin (h\<lparr>suspended := take k (suspended h) @ drop (Suc k) (suspended h)\<rparr>)"
proof -
  have "fst ` set (take k (suspended h) @ drop (Suc k) (suspended h)) \<subseteq> fst ` set (suspended h)"
    by (auto dest: in_set_takeD in_set_dropD)
  also have "\<dots> \<subseteq> set criticalEndpoints"
    using assms by (simp add: keysWithin_def)
  finally show ?thesis
    using assms by (simp add: keysWithin_def del: set_append)
qed

lemma keysWithin_deliver: "keysWithin h \<Longrightarrow> keysWithin (deliver rt e h)"
proof (cases e)
  case (BodyArrives k)
  assume kw: "keysWithin h"
  show ?thesis
  proof (cases "k < length (suspended h)")
    case True
    then have "suspended h ! k \<in> set (suspended h)" by simp
    then have "fst (suspended h ! k) \<in> set criticalEndpoints"
      using kw by (auto simp: keysWithin_def)
    with True BodyArrives kw show ?thesis
      by (simp add: keysWithin_resume keysWithin_unsuspend)
  next
    case False
    with BodyArrives kw show ?thesis by simp
  qed
qed (simp_all add: handleConsole_def handleRequest_def handleResponse_def Let_def
       onSuccess_eq keysWithin_check)

lemma keysWithin_deliverAll: "keysWithin h \<Longrightarrow> keysWithin (deliverAll es h)"
  by (induction es arbitrary: h) (auto simp: keysWithin_deliver)

lemma keysWithin_new: "keysWithin (newCustomEventHandler cl nl)"
  by (simp add: keysWithin_def newCustomEventHandler_def)

lemma distinct_subset_length:
  assumes "distinct xs" "set xs \<subseteq> set ys"
  shows "length xs \<le> length ys"
proof -
  have "length xs = card (set xs)" using assms(1) by (simp add: distinct_card)
  also have "\<dots> \<le> card (set ys)" using assms(2) by (simp add: card_mono)
  also have "\<dots> \<le> length ys" by (rule card_length)
  finally show ?thesis .
qed

text \<open>
  What each step leaves in the map.  A lookup after a step returns the observation of
  that step under the name the step stores, whatever was stored there before, and what
  was there before under every other name.
\<close>

lemma find_health_iff:
  "(find (\<lambda>e. endsWith u e) criticalEndpoints = Some ''/health'') = endsWith u ''/health''"
  by (auto simp: criticalEndpoints_def endsWith_def suffix_def)

lemma lookup_setResponse:
  "getEndpointResponse n (setResponse m obs h) = (if n = m then Some obs else getEndpointResponse n h)"
  by (simp add: getEndpointResponse_def update_conv')

lemma lookup_frame [simp]:
  "getEndpointResponse n (networkLog l m h) = getEndpointResponse n h"
  "getEndpointResponse n (consoleLog l m h) = getEndpointResponse n h"
  "getEndpointResponse n (h\<lparr>criticalEndpointFailed := b\<rparr>) = getEndpointResponse n h"
  "getEndpointResponse n (h\<lparr>healthCheckPassed := b\<rparr>) = getEndpointResponse n h"
  "getEndpointResponse n (h\<lparr>suspended := s\<rparr>) = getEndpointResponse n h"
  "getEndpointResponse n (onConsoleError c h) = getEndpointResponse n h"
  "getEndpointResponse n (onRequest q h) = getEndpointResponse n h"
  "getEndpointResponse n (onServerError r h) = getEndpointResponse n h"
  "getEndpointResponse n (onClientError r h) = getEndpointResponse n h"
  by (simp_all add: getEndpointResponse_def)

lemma lookup_resume:
  "getEndpointResponse n (checkCriticalEndpoint_resume rt m r h) =
     (if n = m then
        Some (case resp_json r of
                Inl error \<Rightarrow>
                  \<lparr> obs_url = resp_url r, obs_timestamp = dateNow rt, obs_status = resp_status r,
                    obs_body = None,
                    obs_error = Some (''Failed to parse JSON response: '' @ error) \<rparr>
              | Inr responseBody \<Rightarrow>
                  if responseBody = JNull then
                    \<lparr> obs_url = resp_url r, obs_timestamp = dateNow rt, obs_status = resp_status r,
                      obs_body = None,
                      obs_error = Some (''Failed to parse JSON response: '' @ typeErrorText rt) \<rparr>
                  else
                    \<lparr> obs_url = resp_url r, obs_timestamp = dateNow rt, obs_status = resp_status r,
                      obs_body = Some responseBody, obs_error = None \<rparr>)
      else getEndpointResponse n h)"
  by (simp add: checkCriticalEndpoint_resume_def jsonCatch_def Let_def lookup_setResponse
        split: sum.splits)

lemma length_update_alist:
  "length (AList.update k v al) = (if k \<in> fst ` set al then length al else Suc (length al))"
  by (induction al) auto

lemma length_setResponse:
  "length (criticalEndpointResponses (setResponse m obs h)) =
     (if m \<in> fst ` set (criticalEndpointResponses h) then length (criticalEndpointResponses h)
      else Suc (length (criticalEndpointResponses h)))"
  by (simp add: length_update_alist)

lemma length_resume:
  "length (criticalEndpointResponses (checkCriticalEndpoint_resume rt m r h)) =
     (if m \<in> fst ` set (criticalEndpointResponses h) then length (criticalEndpointResponses h)
      else Suc (length (criticalEndpointResponses h)))"
  by (simp add: checkCriticalEndpoint_resume_def jsonCatch_def Let_def length_update_alist dom_update
        split: sum.splits)

lemma lookup_response:
  "getEndpointResponse n (deliver rt (ResponseEvent r) h) =
     (if 200 \<le> resp_status r \<and> resp_status r < 300 \<and> endsWith (resp_url r) ''/health''
         \<and> n = ''/health''
      then Some (if resp_status r = 200
                 then \<lparr> obs_url = resp_url r, obs_timestamp = dateNow rt, obs_status = 200,
                        obs_body = Some (JStr ''OK (200)''), obs_error = None \<rparr>
                 else \<lparr> obs_url = resp_url r, obs_timestamp = dateNow rt,
                        obs_status = resp_status r, obs_body = None,
                        obs_error = Some (''HTTP '' @ showInt (resp_status r)) \<rparr>)
      else getEndpointResponse n h)"
proof (cases "find (\<lambda>e. endsWith (resp_url r) e) criticalEndpoints")
  case None
  then have "\<not> endsWith (resp_url r) ''/health''"
    using find_health_iff [of "resp_url r"] by simp
  with None show ?thesis
    by (simp add: handleResponse_def Let_def onSuccess_eq checkCriticalEndpoint_def)
next
  case (Some m)
  have iff: "(m = ''/health'') = endsWith (resp_url r) ''/health''"
    using find_health_iff [of "resp_url r"] Some by simp
  show ?thesis
  proof (cases "m = ''/health''")
    case True
    with Some iff show ?thesis
      by (simp add: handleResponse_def Let_def onSuccess_eq checkCriticalEndpoint_def
            lookup_setResponse)
  next
    case False
    with Some iff show ?thesis
      by (simp add: handleResponse_def Let_def onSuccess_eq checkCriticalEndpoint_def)
  qed
qed

lemma length_response:
  "length (criticalEndpointResponses (deliver rt (ResponseEvent r) h)) =
     (if 200 \<le> resp_status r \<and> resp_status r < 300 \<and> endsWith (resp_url r) ''/health''
      then (if ''/health'' \<in> fst ` set (criticalEndpointResponses h)
            then length (criticalEndpointResponses h)
            else Suc (length (criticalEndpointResponses h)))
      else length (criticalEndpointResponses h))"
proof (cases "find (\<lambda>e. endsWith (resp_url r) e) criticalEndpoints")
  case None
  then have "\<not> endsWith (resp_url r) ''/health''"
    using find_health_iff [of "resp_url r"] by simp
  with None show ?thesis
    by (simp add: handleResponse_def Let_def onSuccess_eq checkCriticalEndpoint_def)
next
  case (Some m)
  have iff: "(m = ''/health'') = endsWith (resp_url r) ''/health''"
    using find_health_iff [of "resp_url r"] Some by simp
  show ?thesis
  proof (cases "m = ''/health''")
    case True
    with Some iff show ?thesis
      by (simp add: handleResponse_def Let_def onSuccess_eq checkCriticalEndpoint_def
            length_update_alist)
  next
    case False
    with Some iff show ?thesis
      by (simp add: handleResponse_def Let_def onSuccess_eq checkCriticalEndpoint_def)
  qed
qed

lemma lookup_body:
  "getEndpointResponse n (deliver rt (BodyArrives k) h) =
     (if k < length (suspended h) \<and> n = fst (suspended h ! k) then
        Some (case resp_json (snd (suspended h ! k)) of
                Inl error \<Rightarrow>
                  \<lparr> obs_url = resp_url (snd (suspended h ! k)), obs_timestamp = dateNow rt,
                    obs_status = resp_status (snd (suspended h ! k)), obs_body = None,
                    obs_error = Some (''Failed to parse JSON response: '' @ error) \<rparr>
              | Inr responseBody \<Rightarrow>
                  if responseBody = JNull then
                    \<lparr> obs_url = resp_url (snd (suspended h ! k)), obs_timestamp = dateNow rt,
                      obs_status = resp_status (snd (suspended h ! k)), obs_body = None,
                      obs_error = Some (''Failed to parse JSON response: '' @ typeErrorText rt) \<rparr>
                  else
                    \<lparr> obs_url = resp_url (snd (suspended h ! k)), obs_timestamp = dateNow rt,
                      obs_status = resp_status (snd (suspended h ! k)),
                      obs_body = Some responseBody, obs_error = None \<rparr>)
      else getEndpointResponse n h)"
  by (simp add: lookup_resume)

lemma length_body:
  "length (criticalEndpointResponses (deliver rt (BodyArrives k) h)) =
     (if k < length (suspended h) then
        (if fst (suspended h ! k) \<in> fst ` set (criticalEndpointResponses h)
         then length (criticalEndpointResponses h)
         else Suc (length (criticalEndpointResponses h)))
      else length (criticalEndpointResponses h))"
  by (simp add: length_resume)

lemma map_other:
  "criticalEndpointResponses (deliver rt (ConsoleEvent c) h) = criticalEndpointResponses h"
  "criticalEndpointResponses (deliver rt (RequestEvent q) h) = criticalEndpointResponses h"
  by (simp_all add: handleConsole_def handleRequest_def Let_def)

text \<open>
  Claim C6.  In every state a session reaches from a new handler, the map has at most
  five entries, its keys are among the five fixed names, and no name has two entries.
  Storing an observation under a name that already has one replaces it: the lookup
  returns the later observation and the number of entries does not grow.  So, whatever
  was stored for \<open>/health\<close> before, after a \<open>/health\<close> response of status 200 the
  entry is the record of that response.

  The same holds of every step of the handler, in any state \<open>h\<close>.  When the body of a
  response to one of the four other endpoints arrives (the continuation
  \<open>checkCriticalEndpoint_resume\<close>, and the step \<open>BodyArrives k\<close> that runs it for the
  \<open>k\<close>-th response still waiting), the entry of that endpoint becomes the record of this
  response: its URL, the time of the arrival, its status, and either its body or the
  parse error; the entry that \<open>h\<close> held under that name is gone, the entries of all
  other names are as in \<open>h\<close>, and the number of entries grows by one only if the name
  had none.  A response with a status from 200 to 299 whose URL ends with \<open>/health\<close>
  does the same to the entry \<open>/health\<close>; every other response, every request and every
  console message leaves the map as it was.
\<close>

theorem observation_map_bounded:
  "length (criticalEndpointResponses (deliverAll es (newCustomEventHandler cl nl))) \<le> 5 \<and>
   set (map fst (criticalEndpointResponses (deliverAll es (newCustomEventHandler cl nl))))
     \<subseteq> {''/getStore'', ''/getToken'', ''/getOrderTypeData'', ''/getDataAuthStore'', ''/health''} \<and>
   distinct (map fst (criticalEndpointResponses (deliverAll es (newCustomEventHandler cl nl)))) \<and>
   getEndpointResponse n (setResponse n later (setResponse n earlier h)) = Some later \<and>
   length (criticalEndpointResponses (setResponse n later (setResponse n earlier h)))
     = length (criticalEndpointResponses (setResponse n earlier h)) \<and>
   getEndpointResponse ''/health'' (deliver rt (ResponseEvent (healthOk base rtype body)) h) =
     Some \<lparr> obs_url = base @ ''/health'', obs_timestamp = dateNow rt, obs_status = 200,
            obs_body = Some (JStr ''OK (200)''), obs_error = None \<rparr> \<and>
   getEndpointResponse n (checkCriticalEndpoint_resume rt m r h) =
     (if n = m then
        Some (case resp_json r of
                Inl error \<Rightarrow>
                  \<lparr> obs_url = resp_url r, obs_timestamp = dateNow rt, obs_status = resp_status r,
                    obs_body = None,
                    obs_error = Some (''Failed to parse JSON response: '' @ error) \<rparr>
              | Inr responseBody \<Rightarrow>
                  if responseBody = JNull then
                    \<lparr> obs_url = resp_url r, obs_timestamp = dateNow rt, obs_status = resp_status r,
                      obs_body = None,
                      obs_error = Some (''Failed to parse JSON response: '' @ typeErrorText rt) \<rparr>
                  else
                    \<lparr> obs_url = resp_url r, obs_timestamp = dateNow rt, obs_status = resp_status r,
                      obs_body = Some responseBody, obs_error = None \<rparr>)
      else getEndpointResponse n h) \<and>
   length (criticalEndpointResponses (checkCriticalEndpoint_resume rt m r h)) =
     (if m \<in> set (map fst (criticalEndpointResponses h))
      then length (criticalEndpointResponses h)
      else Suc (length (criticalEndpointResponses h))) \<and>
   getEndpointResponse n (deliver rt (BodyArrives k) h) =
     (if k < length (suspended h) \<and> n = fst (suspended h ! k) then
        Some (case resp_json (snd (suspended h ! k)) of
                Inl error \<Rightarrow>
                  \<lparr> obs_url = resp_url (snd (suspended h ! k)), obs_timestamp = dateNow rt,
                    obs_status = resp_status (snd (suspended h ! k)), obs_body = None,
                    obs_error = Some (''Failed to parse JSON response: '' @ error) \<rparr>
              | Inr responseBody \<Rightarrow>
                  if responseBody = JNull then
                    \<lparr> obs_url = resp_url (snd (suspended h ! k)), obs_timestamp = dateNow rt,
                      obs_status = resp_status (snd (suspended h ! k)), obs_body = None,
                      obs_error = Some (''Failed to parse JSON response: '' @ typeErrorText rt) \<rparr>
                  else
                    \<lparr> obs_url = resp_url (snd (suspended h ! k)), obs_timestamp = dateNow rt,
                      obs_status = resp_status (snd (suspended h ! k)),
                      obs_body = Some responseBody, obs_error = None \<rparr>)
      else getEndpointResponse n h) \<and>
   length (criticalEndpointResponses (deliver rt (BodyArrives k) h)) =
     (if k < length (suspended h) then
        (if fst (suspended h ! k) \<in> set (map fst (criticalEndpointResponses h))
         then length (criticalEndpointResponses h)
         else Suc (length (criticalEndpointResponses h)))
      else length (criticalEndpointResponses h)) \<and>
   getEndpointResponse n (deliver rt (ResponseEvent r) h) =
     (if 200 \<le> resp_status r \<and> resp_status r < 300 \<and> endsWith (resp_url r) ''/health''
         \<and> n = ''/health''
      then Some (if resp_status r = 200
                 then \<lparr> obs_url = resp_url r, obs_timestamp = dateNow rt, obs_status = 200,
                        obs_body = Some (JStr ''OK (200)''), obs_error = None \<rparr>
                 else \<lparr> obs_url = resp_url r, obs_timestamp = dateNow rt,
                        obs_status = resp_status r, obs_body = None,
                        obs_error = Some (''HTTP '' @ showInt (resp_status r)) \<rparr>)
      else getEndpointResponse n h) \<and>
   length (criticalEndpointResponses (deliver rt (ResponseEvent r) h)) =
     (if 200 \<le> resp_status r \<and> resp_status r < 300 \<and> endsWith (resp_url r) ''/health''
      then (if ''/health'' \<in> set (map fst (criticalEndpointResponses h))
            then length (criticalEndpointResponses h)
            else Suc (length (criticalEndpointResponses h)))
      else length (criticalEndpointResponses h)) \<and>
   criticalEndpointResponses (deliver rt (ConsoleEvent c) h) = criticalEndpointResponses h \<and>
   criticalEndpointResponses (deliver rt (RequestEvent q) h) = criticalEndpointResponses h"
proof -
  let ?h = "deliverAll es (newCustomEventHandler cl nl)"
  have kw: "keysWithin ?h" by (simp add: keysWithin_deliverAll keysWithin_new)
  then have "length (map fst (criticalEndpointResponses ?h)) \<le> length criticalEndpoints"
    unfolding keysWithin_def by (intro distinct_subset_length) simp_all
  then have a: "length (criticalEndpointResponses ?h) \<le> 5"
    by (simp add: criticalEndpoints_def)
  have b: "set (map fst (criticalEndpointResponses ?h))
     \<subseteq> {''/getStore'', ''/getToken'', ''/getOrderTypeData'', ''/getDataAuthStore'', ''/health''}"
    using kw unfolding keysWithin_def criticalEndpoints_def by simp
  have c: "distinct (map fst (criticalEndpointResponses ?h))"
    using kw by (simp add: keysWithin_def)
  have d: "getEndpointResponse n (setResponse n later (setResponse n earlier h)) = Some later"
    by (simp add: getEndpointResponse_def update_conv')
  have "length (map fst (criticalEndpointResponses (setResponse n later (setResponse n earlier h))))
      = length (map fst (criticalEndpointResponses (setResponse n earlier h)))"
    by (simp only: setResponse_frame update_keys) (simp add: update_keys)
  then have e: "length (criticalEndpointResponses (setResponse n later (setResponse n earlier h)))
     = length (criticalEndpointResponses (setResponse n earlier h))"
    by simp
  have "criticalEndpointResponses (deliver rt (ResponseEvent (healthOk base rtype body)) h) =
      AList.update ''/health''
        \<lparr> obs_url = base @ ''/health'', obs_timestamp = dateNow rt, obs_status = 200,
          obs_body = Some (JStr ''OK (200)''), obs_error = None \<rparr>
        (criticalEndpointResponses h)"
    using health_200_stores(2) [of "healthOk base rtype body" base rt h]
    by (simp add: healthOk_def)
  then have f: "getEndpointResponse ''/health''
        (deliver rt (ResponseEvent (healthOk base rtype body)) h) =
      Some \<lparr> obs_url = base @ ''/health'', obs_timestamp = dateNow rt, obs_status = 200,
             obs_body = Some (JStr ''OK (200)''), obs_error = None \<rparr>"
    by (simp only: getEndpointResponse_def update_conv') simp
  note g = lookup_resume [of n rt m r h]
  have i: "length (criticalEndpointResponses (checkCriticalEndpoint_resume rt m r h)) =
     (if m \<in> set (map fst (criticalEndpointResponses h))
      then length (criticalEndpointResponses h)
      else Suc (length (criticalEndpointResponses h)))"
    using length_resume [of rt m r h] by simp
  note j = lookup_body [of n rt k h]
  have l: "length (criticalEndpointResponses (deliver rt (BodyArrives k) h)) =
     (if k < length (suspended h) then
        (if fst (suspended h ! k) \<in> set (map fst (criticalEndpointResponses h))
         then length (criticalEndpointResponses h)
         else Suc (length (criticalEndpointResponses h)))
      else length (criticalEndpointResponses h))"
    using length_body [of rt k h] by simp
  note o = lookup_response [of n rt r h]
  have p: "length (criticalEndpointResponses (deliver rt (ResponseEvent r) h)) =
     (if 200 \<le> resp_status r \<and> resp_status r < 300 \<and> endsWith (resp_url r) ''/health''
      then (if ''/health'' \<in> set (map fst (criticalEndpointResponses h))
            then length (criticalEndpointResponses h)
            else Suc (length (criticalEndpointResponses h)))
      else length (criticalEndpointResponses h))"
    using length_response [of rt r h] by simp
  note q1 = map_other(1) [of rt c h]
  note q2 = map_other(2) [of rt q h]
  show ?thesis
    by (intro conjI) (fact a, fact b, fact c, fact d, fact e, fact f, fact g, fact i, fact j,
      fact l, fact o, fact p, fact q1, fact q2)
qed

text \<open>
  A session with two \<open>/getStore\<close> responses.  After the body of the first has arrived,
  the entry is the record of the first; when the body of the second arrives five seconds
  later, the entry is the record of the second, and the map still has one entry.
\<close>

theorem observation_map_bounded_witness:
  "getEndpointResponse ''/getStore''
     (deliverAll
        [(sampleRuntime, ResponseEvent (sampleResponse ''/getStore'' 200 (Inr (JObj [(''store'', JNum 1)])))),
         (sampleRuntime, ResponseEvent (sampleResponse ''/getStore'' 200 (Inr (JObj [(''store'', JNum 2)])))),
         (sampleRuntime, BodyArrives 0)]
        (newCustomEventHandler [] [])) =
     Some \<lparr> obs_url = ''https://shop.example/getStore'',
            obs_timestamp = ''2025-01-01T00:00:00.000Z'', obs_status = 200,
            obs_body = Some (JObj [(''store'', JNum 1)]), obs_error = None \<rparr> \<and>
   getEndpointResponse ''/getStore''
     (deliver (sampleRuntime\<lparr>dateNow := ''2025-01-01T00:00:05.000Z''\<rparr>) (BodyArrives 0)
        (deliverAll
           [(sampleRuntime, ResponseEvent (sampleResponse ''/getStore'' 200 (Inr (JObj [(''store'', JNum 1)])))),
            (sampleRuntime, ResponseEvent (sampleResponse ''/getStore'' 200 (Inr (JObj [(''store'', JNum 2)])))),
            (sampleRuntime, BodyArrives 0)]
           (newCustomEventHandler [] []))) =
     Some \<lparr> obs_url = ''https://shop.example/getStore'',
            obs_timestamp = ''2025-01-01T00:00:05.000Z'', obs_status = 200,
            obs_body = Some (JObj [(''store'', JNum 2)]), obs_error = None \<rparr> \<and>
   length (criticalEndpointResponses
     (deliver (sampleRuntime\<lparr>dateNow := ''2025-01-01T00:00:05.000Z''\<rparr>) (BodyArrives 0)
        (deliverAll
           [(sampleRuntime, ResponseEvent (sampleResponse ''/getStore'' 200 (Inr (JObj [(''store'', JNum 1)])))),
            (sampleRuntime, ResponseEvent (sampleResponse ''/getStore'' 200 (Inr (JObj [(''store'', JNum 2)])))),
            (sampleRuntime, BodyArrives 0)]
           (newCustomEventHandler [] [])))) = 1"
proof -
  define h0 where "h0 =
     deliverAll
        [(sampleRuntime, ResponseEvent (sampleResponse ''/getStore'' 200 (Inr (JObj [(''store'', JNum 1)])))),
         (sampleRuntime, ResponseEvent (sampleResponse ''/getStore'' 200 (Inr (JObj [(''store'', JNum 2)])))),
         (sampleRuntime, BodyArrives 0)]
        (newCustomEventHandler [] [])"
  have s: "suspended h0 =
      [(''/getStore'', sampleResponse ''/getStore'' 200 (Inr (JObj [(''store'', JNum 2)])))]"
    unfolding h0_def by (simp add: eval_simps)
  have m: "criticalEndpointResponses h0 =
      [(''/getStore'',
        \<lparr> obs_url = ''https://shop.example/getStore'',
          obs_timestamp = ''2025-01-01T00:00:00.000Z'', obs_status = 200,
          obs_body = Some (JObj [(''store'', JNum 1)]), obs_error = None \<rparr>)]"
    unfolding h0_def by (simp add: eval_simps)
  note sa = observation_map_bounded
    [where n = "''/getStore''" and h = h0 and k = 0
       and rt = "sampleRuntime\<lparr>dateNow := ''2025-01-01T00:00:05.000Z''\<rparr>"]
  have a: "getEndpointResponse ''/getStore'' h0 =
     Some \<lparr> obs_url = ''https://shop.example/getStore'',
            obs_timestamp = ''2025-01-01T00:00:00.000Z'', obs_status = 200,
            obs_body = Some (JObj [(''store'', JNum 1)]), obs_error = None \<rparr>"
    by (simp add: getEndpointResponse_def m)
  from sa have "getEndpointResponse ''/getStore''
      (deliver (sampleRuntime\<lparr>dateNow := ''2025-01-01T00:00:05.000Z''\<rparr>) (BodyArrives 0) h0) =
     (if 0 < length (suspended h0) \<and> ''/getStore'' = fst (suspended h0 ! 0) then
        Some (case resp_json (snd (suspended h0 ! 0)) of
                Inl error \<Rightarrow>
                  \<lparr> obs_url = resp_url (snd (suspended h0 ! 0)),
                    obs_timestamp = dateNow (sampleRuntime\<lparr>dateNow := ''2025-01-01T00:00:05.000Z''\<rparr>),
                    obs_status = resp_status (snd (suspended h0 ! 0)), obs_body = None,
                    obs_error = Some (''Failed to parse JSON response: '' @ error) \<rparr>
              | Inr responseBody \<Rightarrow>
                  if responseBody = JNull then
                    \<lparr> obs_url = resp_url (snd (suspended h0 ! 0)),
                      obs_timestamp = dateNow (sampleRuntime\<lparr>dateNow := ''2025-01-01T00:00:05.000Z''\<rparr>),
                      obs_status = resp_status (snd (suspended h0 ! 0)), obs_body = None,
                      obs_error = Some (''Failed to parse JSON response: ''
                        @ typeErrorText (sampleRuntime\<lparr>dateNow := ''2025-01-01T00:00:05.000Z''\<rparr>)) \<rparr>
                  else
                    \<lparr> obs_url = resp_url (snd (suspended h0 ! 0)),
                      obs_timestamp = dateNow (sampleRuntime\<lparr>dateNow := ''2025-01-01T00:00:05.000Z''\<rparr>),
                      obs_status = resp_status (snd (suspended h0 ! 0)),
                      obs_body = Some responseBody, obs_error = None \<rparr>)
      else getEndpointResponse ''/getStore'' h0)"
    by blast
  then have b: "getEndpointResponse ''/getStore''
      (deliver (sampleRuntime\<lparr>dateNow := ''2025-01-01T00:00:05.000Z''\<rparr>) (BodyArrives 0) h0) =
     Some \<lparr> obs_url = ''https://shop.example/getStore'',
            obs_timestamp = ''2025-01-01T00:00:05.000Z'', obs_status = 200,
            obs_body = Some (JObj [(''store'', JNum 2)]), obs_error = None \<rparr>"
    by (simp add: s sampleResponse_def)
  from sa have "length (criticalEndpointResponses
      (deliver (sampleRuntime\<lparr>dateNow := ''2025-01-01T00:00:05.000Z''\<rparr>) (BodyArrives 0) h0)) =
     (if 0 < length (suspended h0) then
        (if fst (suspended h0 ! 0) \<in> set (map fst (criticalEndpointResponses h0))
         then length (criticalEndpointResponses h0)
         else Suc (length (criticalEndpointResponses h0)))
      else length (criticalEndpointResponses h0))"
    by blast
  then have c: "length (criticalEndpointResponses
      (deliver (sampleRuntime\<lparr>dateNow := ''2025-01-01T00:00:05.000Z''\<rparr>) (BodyArrives 0) h0)) = 1"
    by (simp add: s m)
  show ?thesis
    unfolding h0_def [symmetric] by (intro conjI) (fact a, fact b, fact c)
qed


section \<open>Names without an observation\<close>

lemma absentFrom_simps [simp]:
  "absentFrom n (networkLog l m h) = absentFrom n h"
  "absentFrom n (consoleLog l m h) = absentFrom n h"
  "absentFrom n (h\<lparr>criticalEndpointFailed := b\<rparr>) = absentFrom n h"
  "absentFrom n (h\<lparr>healthCheckPassed := b\<rparr>) = absentFrom n h"
  "absentFrom n (onConsoleError m h) = absentFrom n h"
  "absentFrom n (onRequest q h) = absentFrom n h"
  "absentFrom n (onServerError r h) = absentFrom n h"
  "absentFrom n (onClientError r h) = absentFrom n h"
  by (simp_all add: absentFrom_def)

lemma absentFrom_setResponse:
  "absentFrom n h \<Longrightarrow> m \<noteq> n \<Longrightarrow> absentFrom n (setResponse m obs h)"
  by (simp add: absentFrom_def dom_update)

lemma absentFrom_check:
  assumes "absentFrom n h"
    and "find (\<lambda>e. endsWith (resp_url r) e) criticalEndpoints \<noteq> Some n"
  shows "absentFrom n (checkCriticalEndpoint rt r h)"
proof (cases "find (\<lambda>e. endsWith (resp_url r) e) criticalEndpoints")
  case None
  with assms show ?thesis by (simp add: checkCriticalEndpoint_def)
next
  case (Some m)
  with assms(2) have mn: "m \<noteq> n" by simp
  show ?thesis
  proof (cases "m = ''/health''")
    case True
    with Some mn assms(1) show ?thesis
      by (simp add: checkCriticalEndpoint_def Let_def absentFrom_setResponse)
  next
    case False
    with Some mn assms(1) show ?thesis
      by (simp add: checkCriticalEndpoint_def Let_def absentFrom_def)
  qed
qed

lemma absentFrom_resume:
  "absentFrom n h \<Longrightarrow> m \<noteq> n \<Longrightarrow> absentFrom n (checkCriticalEndpoint_resume rt m r h)"
  by (simp add: checkCriticalEndpoint_resume_def jsonCatch_def Let_def absentFrom_setResponse
        split: sum.splits)

lemma absentFrom_unsuspend:
  assumes "absentFrom n h"
  shows "absentFrom n (h\<lparr>suspended := take k (suspended h) @ drop (Suc k) (suspended h)\<rparr>)"
proof -
  have "fst ` set (take k (suspended h) @ drop (Suc k) (suspended h)) \<subseteq> fst ` set (suspended h)"
    by (auto dest: in_set_takeD in_set_dropD)
  with assms show ?thesis
    by (auto simp: absentFrom_def simp del: set_append)
qed

lemma absentFrom_deliver:
  assumes "absentFrom n h" and "\<not> observedFor n e"
  shows "absentFrom n (deliver rt e h)"
proof (cases e)
  case (ResponseEvent r)
  show ?thesis
  proof (cases "200 \<le> resp_status r \<and> resp_status r < 300")
    case True
    with assms(2) ResponseEvent
    have "find (\<lambda>e. endsWith (resp_url r) e) criticalEndpoints \<noteq> Some n" by simp
    with assms(1) True ResponseEvent show ?thesis
      by (simp add: handleResponse_def Let_def onSuccess_eq absentFrom_check)
  next
    case False
    with assms(1) ResponseEvent show ?thesis
      by (auto simp: handleResponse_def Let_def)
  qed
next
  case (BodyArrives k)
  show ?thesis
  proof (cases "k < length (suspended h)")
    case True
    then have "fst (suspended h ! k) \<in> fst ` set (suspended h)" by simp
    with assms(1) have "fst (suspended h ! k) \<noteq> n" by (auto simp: absentFrom_def)
    with True BodyArrives assms(1) show ?thesis
      by (simp add: absentFrom_resume absentFrom_unsuspend)
  next
    case False
    with BodyArrives assms(1) show ?thesis by simp
  qed
next
  case (ConsoleEvent m)
  with assms(1) show ?thesis by (simp add: handleConsole_def Let_def)
next
  case (RequestEvent q)
  with assms(1) show ?thesis by (simp add: handleRequest_def Let_def)
qed

lemma absentFrom_deliverAll:
  "absentFrom n h \<Longrightarrow> list_all (\<lambda>(rt, e). \<not> observedFor n e) es \<Longrightarrow> absentFrom n (deliverAll es h)"
  by (induction es arbitrary: h) (auto simp: absentFrom_deliver)

lemma keys_fold_update:
  "fst ` set (fold (\<lambda>(key, value) obj. AList.update key value obj) xs acc) = fst ` set xs \<union> fst ` set acc"
proof (induction xs arbitrary: acc)
  case Nil
  show ?case by simp
next
  case (Cons x xs)
  obtain k v where x: "x = (k, v)" by (cases x)
  have "fst ` set (fold (\<lambda>(key, value) obj. AList.update key value obj) xs (AList.update k v acc))
      = fst ` set xs \<union> fst ` set (AList.update k v acc)"
    by (rule Cons.IH)
  also have "\<dots> = fst ` set xs \<union> ({k} \<union> fst ` set acc)"
    by (simp only: dom_update)
  finally show ?case by (simp add: x Un_commute Un_left_commute)
qed

lemma object_keys: "fst ` set (getAllResponsesAsObject h) = fst ` set (criticalEndpointResponses h)"
  by (simp add: getAllResponsesAsObject_def keys_fold_update)

lemma not_stored_absent:
  assumes "n \<notin> fst ` set (criticalEndpointResponses h)"
  shows "getEndpointResponse n h = None \<and> n \<notin> fst ` set (getAllResponsesAsObject h)"
  using assms by (simp add: getEndpointResponse_def map_of_eq_None_iff object_keys)

text \<open>
  Claim C10.  A name that is not a key of the map has no value under
  \<open>getEndpointResponse\<close> (the result is \<open>undefined\<close>) and is not an own property of the
  object that \<open>getAllResponsesAsObject\<close> returns.  That is the case, in every state a session
  reaches from a new handler, of every name outside the fixed set, and of every name for
  which no successful response has been attributed to it so far.
\<close>

theorem unobserved_endpoint_is_undefined:
  "(n \<notin> fst ` set (criticalEndpointResponses h) \<longrightarrow>
      getEndpointResponse n h = None \<and> n \<notin> fst ` set (getAllResponsesAsObject h)) \<and>
   (n \<notin> set criticalEndpoints \<longrightarrow>
      getEndpointResponse n (deliverAll es (newCustomEventHandler cl nl)) = None \<and>
      n \<notin> fst ` set (getAllResponsesAsObject (deliverAll es (newCustomEventHandler cl nl)))) \<and>
   (list_all (\<lambda>(rt, e). \<not> observedFor n e) es \<longrightarrow>
      getEndpointResponse n (deliverAll es (newCustomEventHandler cl nl)) = None \<and>
      n \<notin> fst ` set (getAllResponsesAsObject (deliverAll es (newCustomEventHandler cl nl))))"
proof (intro conjI impI)
  assume "n \<notin> fst ` set (criticalEndpointResponses h)"
  then show "getEndpointResponse n h = None" "n \<notin> fst ` set (getAllResponsesAsObject h)"
    by (simp_all add: not_stored_absent)
next
  let ?h = "deliverAll es (newCustomEventHandler cl nl)"
  assume out: "n \<notin> set criticalEndpoints"
  have "keysWithin ?h" by (simp add: keysWithin_deliverAll keysWithin_new)
  with out have "n \<notin> fst ` set (criticalEndpointResponses ?h)"
    by (auto simp: keysWithin_def)
  then show "getEndpointResponse n ?h = None" "n \<notin> fst ` set (getAllResponsesAsObject ?h)"
    by (simp_all add: not_stored_absent)
next
  let ?h = "deliverAll es (newCustomEventHandler cl nl)"
  assume "list_all (\<lambda>(rt, e). \<not> observedFor n e) es"
  moreover have "absentFrom n (newCustomEventHandler cl nl)"
    by (simp add: absentFrom_def newCustomEventHandler_def)
  ultimately have "absentFrom n ?h" by (simp add: absentFrom_deliverAll)
  then have "n \<notin> fst ` set (criticalEndpointResponses ?h)" by (simp add: absentFrom_def)
  then show "getEndpointResponse n ?h = None" "n \<notin> fst ` set (getAllResponsesAsObject ?h)"
    by (simp_all add: not_stored_absent)
qed

theorem unobserved_endpoint_is_undefined_witness:
  "''/getToken'' \<notin> fst ` set (criticalEndpointResponses
      (deliverAll [(sampleRuntime, ResponseEvent (sampleResponse ''/getStore'' 200 (Inr (JObj [(''error'', JBool False)])))),
                   (sampleRuntime, BodyArrives 0),
                   (sampleRuntime, ResponseEvent (sampleResponse ''/getToken'' 503 (Inl ''no body'')))]
         (newCustomEventHandler [] []))) \<and>
   ''/cart'' \<notin> set criticalEndpoints \<and>
   list_all (\<lambda>(rt, e). \<not> observedFor ''/getToken'' e)
     [(sampleRuntime, ResponseEvent (sampleResponse ''/getStore'' 200 (Inr (JObj [(''error'', JBool False)])))),
      (sampleRuntime, BodyArrives 0),
      (sampleRuntime, ResponseEvent (sampleResponse ''/getToken'' 503 (Inl ''no body'')))] \<and>
   getEndpointResponse ''/getToken''
      (deliverAll [(sampleRuntime, ResponseEvent (sampleResponse ''/getStore'' 200 (Inr (JObj [(''error'', JBool False)])))),
                   (sampleRuntime, BodyArrives 0),
                   (sampleRuntime, ResponseEvent (sampleResponse ''/getToken'' 503 (Inl ''no body'')))]
         (newCustomEventHandler [] [])) = None \<and>
   getEndpointResponse ''/cart''
      (deliverAll [(sampleRuntime, ResponseEvent (sampleResponse ''/getStore'' 200 (Inr (JObj [(''error'', JBool False)])))),
                   (sampleRuntime, BodyArrives 0),
                   (sampleRuntime, ResponseEvent (sampleResponse ''/getToken'' 503 (Inl ''no body'')))]
         (newCustomEventHandler [] [])) = None \<and>
   map fst (getAllResponsesAsObject
      (deliverAll [(sampleRuntime, ResponseEvent (sampleResponse ''/getStore'' 200 (Inr (JObj [(''error'', JBool False)])))),
                   (sampleRuntime, BodyArrives 0),
                   (sampleRuntime, ResponseEvent (sampleResponse ''/getToken'' 503 (Inl ''no body'')))]
         (newCustomEventHandler [] []))) = [''/getStore'']"
proof -
  let ?es = "[(sampleRuntime, ResponseEvent (sampleResponse ''/getStore'' 200 (Inr (JObj [(''error'', JBool False)])))),
                   (sampleRuntime, BodyArrives 0),
                   (sampleRuntime, ResponseEvent (sampleResponse ''/getToken'' 503 (Inl ''no body'')))]"
  let ?h = "deliverAll ?es (newCustomEventHandler [] [])"
  have keys: "map fst (criticalEndpointResponses ?h) = [''/getStore'']"
    by (simp add: eval_simps)
  have a: "''/getToken'' \<notin> fst ` set (criticalEndpointResponses ?h)"
    using keys by (simp flip: set_map)
  have b: "''/cart'' \<notin> set criticalEndpoints"
    by (simp add: criticalEndpoints_def)
  have c: "list_all (\<lambda>(rt, e). \<not> observedFor ''/getToken'' e) ?es"
    by (simp add: sampleResponse_def criticalEndpoints_def endsWith_def suffix_to_prefix)
  have d: "map fst (getAllResponsesAsObject ?h) = [''/getStore'']"
    by (simp add: eval_simps)
  from a b c d
    unobserved_endpoint_is_undefined [of "''/getToken''" ?h ?es "[]" "[]"]
    unobserved_endpoint_is_undefined [of "''/cart''" ?h ?es "[]" "[]"]
  show ?thesis by blast
qed


section \<open>Responses outside the success band\<close>

text \<open>
  Claim C9.  A response whose status is outside \<open>[200,300)\<close> (whatever its URL, so also
  when the URL ends with a critical-endpoint suffix) leaves the observation map, both
  flags and the suspended calls as they were; of the remaining fields only the network
  log and, for a status of 500 or more, the server-error counter change.
\<close>

theorem non_success_leaves_endpoint_state:
  assumes "\<not> (200 \<le> resp_status r \<and> resp_status r < 300)"
  shows "criticalEndpointResponses (handleResponse (customHooks rt) r h) = criticalEndpointResponses h \<and>
         healthCheckPassed (handleResponse (customHooks rt) r h) = healthCheckPassed h \<and>
         criticalEndpointFailed (handleResponse (customHooks rt) r h) = criticalEndpointFailed h \<and>
         suspended (handleResponse (customHooks rt) r h) = suspended h \<and>
         errorCount (handleResponse (customHooks rt) r h) = errorCount h \<and>
         requestCount (handleResponse (customHooks rt) r h) = requestCount h \<and>
         consoleLogger (handleResponse (customHooks rt) r h) = consoleLogger h \<and>
         serverErrorCount (handleResponse (customHooks rt) r h) =
           (if 500 \<le> resp_status r then serverErrorCount h + 1 else serverErrorCount h)"
  using assms by (auto simp: handleResponse_def Let_def)

theorem non_success_leaves_endpoint_state_witness:
  "\<not> (200 \<le> (503::int) \<and> (503::int) < 300) \<and>
   criticalEndpointResponses
     (handleResponse (customHooks sampleRuntime) (sampleResponse ''/health'' 503 (Inl ''no body''))
        (newCustomEventHandler [] [])) = [] \<and>
   \<not> healthCheckPassed
     (handleResponse (customHooks sampleRuntime) (sampleResponse ''/health'' 503 (Inl ''no body''))
        (newCustomEventHandler [] [])) \<and>
   \<not> criticalEndpointFailed
     (handleResponse (customHooks sampleRuntime) (sampleResponse ''/health'' 503 (Inl ''no body''))
        (newCustomEventHandler [] [])) \<and>
   serverErrorCount
     (handleResponse (customHooks sampleRuntime) (sampleResponse ''/health'' 503 (Inl ''no body''))
        (newCustomEventHandler [] [])) = 1"
  using non_success_leaves_endpoint_state
          [of "sampleResponse ''/health'' 503 (Inl ''no body'')" sampleRuntime
              "newCustomEventHandler [] []"]
  by (simp add: sampleResponse_def newCustomEventHandler_def)

section \<open>The health endpoint\<close>

lemma health_response_flags:
  assumes "200 \<le> resp_status r" "resp_status r < 300" "resp_url r = b @ ''/health''"
  shows "healthCheckPassed (handleResponse (customHooks rt) r h) = (healthCheckPassed h \<or> resp_status r = 200)"
    and "criticalEndpointFailed (handleResponse (customHooks rt) r h) = (criticalEndpointFailed h \<or> resp_status r \<noteq> 200)"
    and "map_option obs_error (getEndpointResponse ''/health'' (handleResponse (customHooks rt) r h))
         = Some (if resp_status r = 200 then None else Some (''HTTP '' @ showInt (resp_status r)))"
  using assms
  by (simp_all add: handleResponse_def Let_def onSuccess_eq checkCriticalEndpoint_def find_health
        getEndpointResponse_def update_conv')

text \<open>
  Endpoint evaluation does to a \<open>/health\<close> response of status 503 what its branch for
  a status other than 200 says: the failure flag is set and the stored error text is
  \<open>HTTP 503\<close>.
\<close>

lemma health_503_when_evaluated:
  "hasCriticalFailure
     (checkCriticalEndpoint sampleRuntime (sampleResponse ''/health'' 503 (Inl ''no body''))
        (newCustomEventHandler [] [])) \<and>
   map_option obs_error (getEndpointResponse ''/health''
     (checkCriticalEndpoint sampleRuntime (sampleResponse ''/health'' 503 (Inl ''no body''))
        (newCustomEventHandler [] []))) = Some (Some ''HTTP 503'')"
  by (simp add: eval_simps)


text \<open>
  Claim C1 has every status other than 200 on \<open>/health\<close> set \<open>criticalEndpointFailed\<close>
  and store an observation whose error text is the HTTP status.  A response of status
  503 never reaches endpoint evaluation: \<open>handleResponse\<close> calls the server-error hook
  for it, and only the success hook evaluates endpoints.  In a new handler that receives
  the response, no failure is flagged, nothing is stored under \<open>/health\<close>, and the
  server-error counter is 1.
\<close>

theorem health_503_is_not_evaluated:
  "\<not> hasCriticalFailure
       (deliver sampleRuntime (ResponseEvent (sampleResponse ''/health'' 503 (Inl ''no body'')))
          (newCustomEventHandler [] [])) \<and>
   \<not> hasHealthCheckPassed
       (deliver sampleRuntime (ResponseEvent (sampleResponse ''/health'' 503 (Inl ''no body'')))
          (newCustomEventHandler [] [])) \<and>
   getEndpointResponse ''/health''
       (deliver sampleRuntime (ResponseEvent (sampleResponse ''/health'' 503 (Inl ''no body'')))
          (newCustomEventHandler [] [])) = None \<and>
   serverErrors (getStats
       (deliver sampleRuntime (ResponseEvent (sampleResponse ''/health'' 503 (Inl ''no body'')))
          (newCustomEventHandler [] []))) = 1"
  by (simp add: eval_simps)


section \<open>Scenario A\<close>

lemma find_store: "find (\<lambda>e. endsWith (b @ ''/getStore'') e) criticalEndpoints = Some ''/getStore''"
  by (simp add: criticalEndpoints_def)

lemma find_token: "find (\<lambda>e. endsWith (b @ ''/getToken'') e) criticalEndpoints = Some ''/getToken''"
  by (auto simp: criticalEndpoints_def dest: endsWith_last)

lemma find_order:
  "find (\<lambda>e. endsWith (b @ ''/getOrderTypeData'') e) criticalEndpoints = Some ''/getOrderTypeData''"
  by (auto simp: criticalEndpoints_def dest: endsWith_last)

lemma success_suspends:
  assumes "200 \<le> resp_status r" "resp_status r < 300"
    and "find (\<lambda>e. endsWith (resp_url r) e) criticalEndpoints = Some n" "n \<noteq> ''/health''"
  shows "suspended (handleResponse (customHooks rt) r h) = suspended h @ [(n, r)]"
    and "criticalEndpointResponses (handleResponse (customHooks rt) r h) = criticalEndpointResponses h"
    and "criticalEndpointFailed (handleResponse (customHooks rt) r h) = criticalEndpointFailed h"
  using assms
  by (simp_all add: handleResponse_def Let_def onSuccess_eq checkCriticalEndpoint_def)

lemma resume_body:
  assumes "resp_json r = Inr body" "body \<noteq> JNull"
  shows "criticalEndpointResponses (checkCriticalEndpoint_resume rt n r h) =
           AList.update n
             \<lparr> obs_url = resp_url r, obs_timestamp = dateNow rt, obs_status = resp_status r,
               obs_body = Some body, obs_error = None \<rparr>
             (criticalEndpointResponses h)"
    and "criticalEndpointFailed (checkCriticalEndpoint_resume rt n r h) =
           (criticalEndpointFailed h \<or> getProp body ''error'' = Some (JBool True))"
  using assms by (simp_all add: checkCriticalEndpoint_resume_def Let_def)

lemma in_set_delete_nth:
  assumes "x \<in> set xs" "xs ! k \<noteq> x"
  shows "x \<in> set (take k xs @ drop (Suc k) xs)"
proof -
  from assms(1) obtain i where i: "i < length xs" "xs ! i = x"
    by (auto simp: in_set_conv_nth)
  with assms(2) have "i \<noteq> k" by auto
  then consider "i < k" | "k < i" by linarith
  then show ?thesis
  proof cases
    case 1
    with i have "x \<in> set (take k xs)" by (auto simp: in_set_conv_nth)
    then show ?thesis by simp
  next
    case 2
    then obtain j where j: "i = Suc k + j" by (metis less_iff_Suc_add add_Suc)
    with i have "j < length (drop (Suc k) xs)" "drop (Suc k) xs ! j = x" by auto
    then have "x \<in> set (drop (Suc k) xs)" by (auto simp: in_set_conv_nth)
    then show ?thesis by simp
  qed
qed


lemma healthSynthetic_same:
  "criticalEndpointResponses h' = criticalEndpointResponses h \<Longrightarrow>
   healthSynthetic u h' = healthSynthetic u h"
  by (simp add: healthSynthetic_def getEndpointResponse_def)

lemma healthSynthetic_other:
  "criticalEndpointResponses h' = AList.update n obs (criticalEndpointResponses h) \<Longrightarrow>
   n \<noteq> ''/health'' \<Longrightarrow> healthSynthetic u h' = healthSynthetic u h"
  by (simp add: healthSynthetic_def getEndpointResponse_def update_conv')

lemma healthSynthetic_stored:
  "criticalEndpointResponses h' =
     AList.update ''/health''
       \<lparr> obs_url = u, obs_timestamp = ts, obs_status = 200,
         obs_body = Some (JStr ''OK (200)''), obs_error = None \<rparr>
       (criticalEndpointResponses h) \<Longrightarrow>
   healthSynthetic u h'"
  by (simp add: healthSynthetic_def getEndpointResponse_def update_conv')

lemma orderErrorStored_same:
  "criticalEndpointResponses h' = criticalEndpointResponses h \<Longrightarrow>
   orderErrorStored u h' = orderErrorStored u h"
  by (simp add: orderErrorStored_def getEndpointResponse_def)

lemma orderErrorStored_other:
  "criticalEndpointResponses h' = AList.update n obs (criticalEndpointResponses h) \<Longrightarrow>
   n \<noteq> ''/getOrderTypeData'' \<Longrightarrow> orderErrorStored u h' = orderErrorStored u h"
  by (simp add: orderErrorStored_def getEndpointResponse_def update_conv')

lemma orderErrorStored_stored:
  "criticalEndpointResponses h' =
     AList.update ''/getOrderTypeData''
       \<lparr> obs_url = u, obs_timestamp = ts, obs_status = 200,
         obs_body = Some (JObj [(''error'', JBool True)]), obs_error = None \<rparr>
       (criticalEndpointResponses h) \<Longrightarrow>
   orderErrorStored u h'"
  by (simp add: orderErrorStored_def getEndpointResponse_def update_conv')

lemma append_last_neq:
  "last t \<noteq> last t' \<Longrightarrow> t \<noteq> [] \<Longrightarrow> t' \<noteq> [] \<Longrightarrow> b @ t \<noteq> b' @ t'"
  by (metis last_appendR)

lemma scenarioA_distinct:
  "healthOk b3 t3 j3 \<noteq> getOrderTypeDataError b4 t4"
  "getStoreOk b1 t1 \<noteq> healthOk b3 t3 j3"
  "getTokenOk b2 t2 \<noteq> healthOk b3 t3 j3"
  "getStoreOk b1 t1 \<noteq> getOrderTypeDataError b4 t4"
  "getTokenOk b2 t2 \<noteq> getOrderTypeDataError b4 t4"
  by (simp_all add: healthOk_def getOrderTypeDataError_def getStoreOk_def getTokenOk_def
        append_last_neq)

lemma scenarioA_other_event:
  assumes "suspended h' = suspended h"
    and "criticalEndpointResponses h' = criticalEndpointResponses h"
    and "criticalEndpointFailed h' = criticalEndpointFailed h"
  shows "healthSynthetic u h' = healthSynthetic u h"
    and "orderSettled od h' = orderSettled od h"
  using assms
  by (simp_all add: orderSettled_def healthSynthetic_same [of h' h] orderErrorStored_same [of h' h])

lemma scenarioA_suspending:
  assumes eff: "suspended h' = suspended h @ [(n, r)]"
      "criticalEndpointResponses h' = criticalEndpointResponses h"
      "criticalEndpointFailed h' = criticalEndpointFailed h"
    and mem: "(n, r) \<in> scenarioA_calls s t od"
    and susp: "set (suspended h) \<subseteq> scenarioA_calls s t od"
  shows "set (suspended h') \<subseteq> scenarioA_calls s t od"
    and "healthSynthetic u h' = healthSynthetic u h"
    and "orderSettled od h \<Longrightarrow> orderSettled od h'"
    and "(n, r) = (''/getOrderTypeData'', od) \<Longrightarrow> orderSettled od h'"
proof -
  show "set (suspended h') \<subseteq> scenarioA_calls s t od"
    using eff(1) mem susp by simp
  show "healthSynthetic u h' = healthSynthetic u h"
    using eff(2) by (rule healthSynthetic_same)
  have o: "orderErrorStored (resp_url od) h' = orderErrorStored (resp_url od) h"
    using eff(2) by (rule orderErrorStored_same)
  show "orderSettled od h \<Longrightarrow> orderSettled od h'"
    using eff(1,3) o by (auto simp: orderSettled_def)
  show "(n, r) = (''/getOrderTypeData'', od) \<Longrightarrow> orderSettled od h'"
    using eff(1) by (simp add: orderSettled_def)
qed

lemma scenarioA_response:
  fixes s t hl od :: response
  assumes s: "s = getStoreOk b1 t1" and t: "t = getTokenOk b2 t2"
    and hl: "hl = healthOk b3 t3 j3" and od: "od = getOrderTypeDataError b4 t4"
    and susp: "set (suspended h) \<subseteq> scenarioA_calls s t od"
    and r: "r \<in> {s, t, hl, od}"
  shows "set (suspended (handleResponse (customHooks rt) r h)) \<subseteq> scenarioA_calls s t od"
    and "healthSynthetic (resp_url hl) h \<or> r = hl \<Longrightarrow>
         healthSynthetic (resp_url hl) (handleResponse (customHooks rt) r h)"
    and "orderSettled od h \<or> r = od \<Longrightarrow> orderSettled od (handleResponse (customHooks rt) r h)"
proof -
  let ?h' = "handleResponse (customHooks rt) r h"
  consider (s) "r = s" | (t) "r = t" | (hl) "r = hl" | (od) "r = od" using r by auto
  then have "set (suspended ?h') \<subseteq> scenarioA_calls s t od \<and>
     (healthSynthetic (resp_url hl) h \<or> r = hl \<longrightarrow> healthSynthetic (resp_url hl) ?h') \<and>
     (orderSettled od h \<or> r = od \<longrightarrow> orderSettled od ?h')"
  proof cases
    case s
    have st: "200 \<le> resp_status r" "resp_status r < 300"
      and f: "find (\<lambda>e. endsWith (resp_url r) e) criticalEndpoints = Some ''/getStore''"
      using s assms(1) by (simp_all add: getStoreOk_def find_store)
    have mem: "(''/getStore'', r) \<in> scenarioA_calls s t od"
      using s by (simp add: scenarioA_calls_def)
    note eff = success_suspends [OF st f, of rt h, simplified]
    note inv = scenarioA_suspending [OF eff mem susp]
    have ne: "r \<noteq> hl" "r \<noteq> od"
      using s assms(1) hl od scenarioA_distinct by auto
    show ?thesis using inv(1) inv(2) [of "resp_url hl"] inv(3) ne by blast
  next
    case t
    have st: "200 \<le> resp_status r" "resp_status r < 300"
      and f: "find (\<lambda>e. endsWith (resp_url r) e) criticalEndpoints = Some ''/getToken''"
      using t assms(2) by (simp_all add: getTokenOk_def find_token)
    have mem: "(''/getToken'', r) \<in> scenarioA_calls s t od"
      using t by (simp add: scenarioA_calls_def)
    note eff = success_suspends [OF st f, of rt h, simplified]
    note inv = scenarioA_suspending [OF eff mem susp]
    have ne: "r \<noteq> hl" "r \<noteq> od"
      using t assms(2) hl od scenarioA_distinct by auto
    show ?thesis using inv(1) inv(2) [of "resp_url hl"] inv(3) ne by blast
  next
    case od
    have st: "200 \<le> resp_status r" "resp_status r < 300"
      and f: "find (\<lambda>e. endsWith (resp_url r) e) criticalEndpoints = Some ''/getOrderTypeData''"
      using od assms(4) by (simp_all add: getOrderTypeDataError_def find_order)
    have mem: "(''/getOrderTypeData'', r) \<in> scenarioA_calls s t od"
      using od by (simp add: scenarioA_calls_def)
    note eff = success_suspends [OF st f, of rt h, simplified]
    note inv = scenarioA_suspending [OF eff mem susp]
    have ne: "r \<noteq> hl"
      using od assms(4) hl scenarioA_distinct(1) [of b3 t3 j3 b4 t4] by auto
    show ?thesis using inv(1) inv(2) [of "resp_url hl"] inv(4) od ne by blast
  next
    case hl
    have st: "resp_status r = 200" and u: "resp_url r = b3 @ ''/health''"
      using hl assms(3) by (simp_all add: healthOk_def)
    note eff = health_200_stores [OF st u, of rt h]
    have ne: "r \<noteq> od"
      using hl assms(3) od scenarioA_distinct(1) [of b3 t3 j3 b4 t4] by auto
    have a: "healthSynthetic (resp_url hl) ?h'"
      using eff(2) hl u by (auto intro: healthSynthetic_stored)
    have b: "orderErrorStored (resp_url od) ?h' = orderErrorStored (resp_url od) h"
      using eff(2) by (rule orderErrorStored_other) simp
    show ?thesis
      using susp ne a b eff(1,3) by (simp add: orderSettled_def)
  qed
  then show "set (suspended ?h') \<subseteq> scenarioA_calls s t od"
    and "healthSynthetic (resp_url hl) h \<or> r = hl \<Longrightarrow> healthSynthetic (resp_url hl) ?h'"
    and "orderSettled od h \<or> r = od \<Longrightarrow> orderSettled od ?h'"
    by blast+
qed


lemma scenarioA_body:
  fixes s t hl od :: response
  assumes s: "s = getStoreOk b1 t1" and t: "t = getTokenOk b2 t2"
    and od: "od = getOrderTypeDataError b4 t4"
    and susp: "set (suspended h) \<subseteq> scenarioA_calls s t od"
  shows "set (suspended (deliver rt (BodyArrives k) h)) \<subseteq> scenarioA_calls s t od"
    and "healthSynthetic u h \<Longrightarrow> healthSynthetic u (deliver rt (BodyArrives k) h)"
    and "orderSettled od h \<Longrightarrow> orderSettled od (deliver rt (BodyArrives k) h)"
proof -
  let ?h' = "deliver rt (BodyArrives k) h"
  have "set (suspended ?h') \<subseteq> scenarioA_calls s t od \<and>
        (healthSynthetic u h \<longrightarrow> healthSynthetic u ?h') \<and>
        (orderSettled od h \<longrightarrow> orderSettled od ?h')"
  proof (cases "k < length (suspended h)")
    case False
    with susp show ?thesis by simp
  next
    case True
    let ?p = "suspended h ! k"
    let ?rest = "take k (suspended h) @ drop (Suc k) (suspended h)"
    let ?h0 = "h\<lparr>suspended := ?rest\<rparr>"
    have h': "?h' = checkCriticalEndpoint_resume rt (fst ?p) (snd ?p) ?h0"
      using True by simp
    have p: "?p \<in> scenarioA_calls s t od"
      using True susp nth_mem by blast
    have "set ?rest \<subseteq> set (suspended h)"
      by (auto dest: in_set_takeD in_set_dropD)
    with susp have A: "set (suspended ?h') \<subseteq> scenarioA_calls s t od"
      unfolding h' by (simp del: set_append)
    have sus: "suspended ?h' = ?rest" unfolding h' by simp
    from p consider (s) "?p = (''/getStore'', s)" | (t) "?p = (''/getToken'', t)"
      | (od) "?p = (''/getOrderTypeData'', od)"
      by (auto simp: scenarioA_calls_def)
    then show ?thesis
    proof cases
      case s
      have j: "resp_json (snd ?p) = Inr (JObj [(''error'', JBool False)])"
        "JObj [(''error'', JBool False)] \<noteq> JNull"
        using s assms(1) by (simp_all add: getStoreOk_def)
      note eff = resume_body [OF j, of rt "fst ?p" ?h0]
      have m: "criticalEndpointResponses ?h' =
        AList.update ''/getStore''
          \<lparr> obs_url = resp_url (snd ?p), obs_timestamp = dateNow rt, obs_status = resp_status (snd ?p),
            obs_body = Some (JObj [(''error'', JBool False)]), obs_error = None \<rparr>
          (criticalEndpointResponses h)"
        unfolding h' using eff(1) s by simp
      have f: "criticalEndpointFailed ?h' = criticalEndpointFailed h"
        unfolding h' using eff(2) by simp
      have B: "healthSynthetic u ?h' = healthSynthetic u h"
        using m by (rule healthSynthetic_other) simp
      have o: "orderErrorStored (resp_url od) ?h' = orderErrorStored (resp_url od) h"
        using m by (rule orderErrorStored_other) simp
      have keep: "(''/getOrderTypeData'', od) \<in> set (suspended h) \<Longrightarrow>
                  (''/getOrderTypeData'', od) \<in> set (suspended ?h')"
        unfolding sus using s by (intro in_set_delete_nth) simp_all
      have C: "orderSettled od h \<longrightarrow> orderSettled od ?h'"
        using keep f o unfolding orderSettled_def by blast
      from A B C show ?thesis by blast
    next
      case t
      have j: "resp_json (snd ?p) = Inr (JObj [(''error'', JBool False)])"
        "JObj [(''error'', JBool False)] \<noteq> JNull"
        using t assms(2) by (simp_all add: getTokenOk_def)
      note eff = resume_body [OF j, of rt "fst ?p" ?h0]
      have m: "criticalEndpointResponses ?h' =
        AList.update ''/getToken''
          \<lparr> obs_url = resp_url (snd ?p), obs_timestamp = dateNow rt, obs_status = resp_status (snd ?p),
            obs_body = Some (JObj [(''error'', JBool False)]), obs_error = None \<rparr>
          (criticalEndpointResponses h)"
        unfolding h' using eff(1) t by simp
      have f: "criticalEndpointFailed ?h' = criticalEndpointFailed h"
        unfolding h' using eff(2) by simp
      have B: "healthSynthetic u ?h' = healthSynthetic u h"
        using m by (rule healthSynthetic_other) simp
      have o: "orderErrorStored (resp_url od) ?h' = orderErrorStored (resp_url od) h"
        using m by (rule orderErrorStored_other) simp
      have keep: "(''/getOrderTypeData'', od) \<in> set (suspended h) \<Longrightarrow>
                  (''/getOrderTypeData'', od) \<in> set (suspended ?h')"
        unfolding sus using t by (intro in_set_delete_nth) simp_all
      have C: "orderSettled od h \<longrightarrow> orderSettled od ?h'"
        using keep f o unfolding orderSettled_def by blast
      from A B C show ?thesis by blast
    next
      case od
      have j: "resp_json (snd ?p) = Inr (JObj [(''error'', JBool True)])"
        "JObj [(''error'', JBool True)] \<noteq> JNull"
        using od assms(3) by (simp_all add: getOrderTypeDataError_def)
      have st: "resp_status (snd ?p) = 200"
        using od assms(3) by (simp add: getOrderTypeDataError_def)
      note eff = resume_body [OF j, of rt "fst ?p" ?h0]
      have m: "criticalEndpointResponses ?h' =
        AList.update ''/getOrderTypeData''
          \<lparr> obs_url = resp_url od, obs_timestamp = dateNow rt, obs_status = 200,
            obs_body = Some (JObj [(''error'', JBool True)]), obs_error = None \<rparr>
          (criticalEndpointResponses h)"
        unfolding h' using eff(1) od st by simp
      have f: "criticalEndpointFailed ?h'"
        unfolding h' using eff(2) by simp
      have B: "healthSynthetic u ?h' = healthSynthetic u h"
        using m by (rule healthSynthetic_other) simp
      have "orderErrorStored (resp_url od) ?h'"
        using m by (rule orderErrorStored_stored)
      with f have C: "orderSettled od ?h'" by (simp add: orderSettled_def)
      from A B C show ?thesis by blast
    qed
  qed
  then show "set (suspended ?h') \<subseteq> scenarioA_calls s t od"
    and "healthSynthetic u h \<Longrightarrow> healthSynthetic u ?h'"
    and "orderSettled od h \<Longrightarrow> orderSettled od ?h'"
    by blast+
qed

lemma responsesOf_Cons:
  "set (responsesOf ((rt, e) # es)) =
     (case e of ResponseEvent r \<Rightarrow> insert r (set (responsesOf es)) | _ \<Rightarrow> set (responsesOf es))"
  by (cases e) simp_all

lemma scenarioA_run:
  fixes s t hl od :: response
  assumes s: "s = getStoreOk b1 t1" and t: "t = getTokenOk b2 t2"
    and hl: "hl = healthOk b3 t3 j3" and od: "od = getOrderTypeDataError b4 t4"
  shows "set (suspended h) \<subseteq> scenarioA_calls s t od \<Longrightarrow>
         set (responsesOf es) \<subseteq> {s, t, hl, od} \<Longrightarrow>
         set (suspended (deliverAll es h)) \<subseteq> scenarioA_calls s t od \<and>
         (healthSynthetic (resp_url hl) h \<or> hl \<in> set (responsesOf es)
            \<longrightarrow> healthSynthetic (resp_url hl) (deliverAll es h)) \<and>
         (orderSettled od h \<or> od \<in> set (responsesOf es) \<longrightarrow> orderSettled od (deliverAll es h))"
proof (induction es arbitrary: h)
  case Nil
  then show ?case by simp
next
  case (Cons x es)
  obtain rt e where x: "x = (rt, e)" by (cases x)
  let ?h' = "deliver rt e h"
  have rs: "set (responsesOf es) \<subseteq> {s, t, hl, od}"
    using Cons.prems(2) unfolding x responsesOf_Cons by (cases e) auto
  have step: "set (suspended ?h') \<subseteq> scenarioA_calls s t od \<and>
     (healthSynthetic (resp_url hl) h \<or> e = ResponseEvent hl \<longrightarrow> healthSynthetic (resp_url hl) ?h') \<and>
     (orderSettled od h \<or> e = ResponseEvent od \<longrightarrow> orderSettled od ?h')"
  proof (cases e)
    case (ConsoleEvent m)
    have "suspended ?h' = suspended h" "criticalEndpointResponses ?h' = criticalEndpointResponses h"
      "criticalEndpointFailed ?h' = criticalEndpointFailed h"
      unfolding ConsoleEvent by (simp_all add: handleConsole_def Let_def)
    from this(1) scenarioA_other_event [OF this] Cons.prems(1) ConsoleEvent
    show ?thesis by simp
  next
    case (RequestEvent q)
    have "suspended ?h' = suspended h" "criticalEndpointResponses ?h' = criticalEndpointResponses h"
      "criticalEndpointFailed ?h' = criticalEndpointFailed h"
      unfolding RequestEvent by (simp_all add: handleRequest_def Let_def)
    from this(1) scenarioA_other_event [OF this] Cons.prems(1) RequestEvent
    show ?thesis by simp
  next
    case (ResponseEvent r)
    have r: "r \<in> {s, t, hl, od}"
      using Cons.prems(2) unfolding x responsesOf_Cons ResponseEvent by simp
    from scenarioA_response [OF s t hl od Cons.prems(1) r, where rt = rt] ResponseEvent
    show ?thesis by auto
  next
    case (BodyArrives k)
    from scenarioA_body(1) [OF s t od Cons.prems(1), where rt = rt and k = k]
      scenarioA_body(2) [OF s t od Cons.prems(1), where rt = rt and k = k and u = "resp_url hl"]
      scenarioA_body(3) [OF s t od Cons.prems(1), where rt = rt and k = k]
      BodyArrives
    show ?thesis by auto
  qed
  have mem: "hl \<in> set (responsesOf (x # es)) \<longleftrightarrow> e = ResponseEvent hl \<or> hl \<in> set (responsesOf es)"
    "od \<in> set (responsesOf (x # es)) \<longleftrightarrow> e = ResponseEvent od \<or> od \<in> set (responsesOf es)"
    unfolding x responsesOf_Cons by (cases e; auto)+
  from step have a: "set (suspended ?h') \<subseteq> scenarioA_calls s t od" by blast
  note ih = Cons.IH [OF a rs]
  show ?case
    unfolding mem using step ih by (auto simp: x)
qed


text \<open>
  Claim C3.  Take any session of a new handler in which the responses delivered are, in
  this order, \<open>/getStore\<close> with status 200 and body \<open>{error: false}\<close>,
  \<open>/getToken\<close> with status 200 and body \<open>{error: false}\<close>, \<open>/health\<close> with
  status 200, and \<open>/getOrderTypeData\<close> with status 200 and body \<open>{error: true}\<close>,
  whatever console messages and requests come in between and in whatever order the
  bodies arrive.  Once every body has arrived, \<open>hasCriticalFailure\<close> is true, the record
  stored for \<open>/getOrderTypeData\<close> holds the parsed body \<open>{error: true}\<close>, and the
  record stored for \<open>/health\<close> is the synthetic one: status 200, body \<open>OK (200)\<close>.
\<close>

theorem scenario_A:
  assumes events: "responsesOf sched =
      [getStoreOk b1 t1, getTokenOk b2 t2, healthOk b3 t3 j3, getOrderTypeDataError b4 t4]"
    and settled: "suspended (deliverAll sched (newCustomEventHandler cl nl)) = []"
  shows "hasCriticalFailure (deliverAll sched (newCustomEventHandler cl nl)) \<and>
     (\<exists>ts. getEndpointResponse ''/getOrderTypeData'' (deliverAll sched (newCustomEventHandler cl nl)) =
        Some \<lparr> obs_url = b4 @ ''/getOrderTypeData'', obs_timestamp = ts, obs_status = 200,
               obs_body = Some (JObj [(''error'', JBool True)]), obs_error = None \<rparr>) \<and>
     (\<exists>ts. getEndpointResponse ''/health'' (deliverAll sched (newCustomEventHandler cl nl)) =
        Some \<lparr> obs_url = b3 @ ''/health'', obs_timestamp = ts, obs_status = 200,
               obs_body = Some (JStr ''OK (200)''), obs_error = None \<rparr>)"
proof -
  let ?s = "getStoreOk b1 t1" and ?t = "getTokenOk b2 t2"
  let ?hl = "healthOk b3 t3 j3" and ?od = "getOrderTypeDataError b4 t4"
  let ?h0 = "newCustomEventHandler cl nl"
  let ?H = "deliverAll sched ?h0"
  have init: "set (suspended ?h0) \<subseteq> scenarioA_calls ?s ?t ?od"
    by (simp add: newCustomEventHandler_def)
  have rs: "set (responsesOf sched) \<subseteq> {?s, ?t, ?hl, ?od}"
    by (simp add: events)
  have mem: "?hl \<in> set (responsesOf sched)" "?od \<in> set (responsesOf sched)"
    by (simp_all add: events)
  from scenarioA_run [OF refl refl refl refl init rs] mem
  have hs: "healthSynthetic (resp_url ?hl) ?H" and os: "orderSettled ?od ?H"
    by blast+
  from os settled have f: "criticalEndpointFailed ?H" and o: "orderErrorStored (resp_url ?od) ?H"
    by (simp_all add: orderSettled_def)
  from f have "hasCriticalFailure ?H" by (simp add: hasCriticalFailure_def)
  moreover from o have "\<exists>ts. getEndpointResponse ''/getOrderTypeData'' ?H =
        Some \<lparr> obs_url = b4 @ ''/getOrderTypeData'', obs_timestamp = ts, obs_status = 200,
               obs_body = Some (JObj [(''error'', JBool True)]), obs_error = None \<rparr>"
    by (simp add: orderErrorStored_def getOrderTypeDataError_def)
  moreover from hs have "\<exists>ts. getEndpointResponse ''/health'' ?H =
        Some \<lparr> obs_url = b3 @ ''/health'', obs_timestamp = ts, obs_status = 200,
               obs_body = Some (JStr ''OK (200)''), obs_error = None \<rparr>"
    by (simp add: healthSynthetic_def healthOk_def)
  ultimately show ?thesis by blast
qed

theorem scenario_A_witness:
  "responsesOf
     [(sampleRuntime, ResponseEvent (getStoreOk ''https://shop.example'' ''fetch'')),
      (sampleRuntime, ResponseEvent (getTokenOk ''https://shop.example'' ''fetch'')),
      (sampleRuntime, BodyArrives 0),
      (sampleRuntime, ResponseEvent (healthOk ''https://shop.example'' ''fetch'' (Inl ''no body''))),
      (sampleRuntime, ResponseEvent (getOrderTypeDataError ''https://shop.example'' ''fetch'')),
      (sampleRuntime, BodyArrives 1),
      (sampleRuntime, BodyArrives 0)]
   = [getStoreOk ''https://shop.example'' ''fetch'', getTokenOk ''https://shop.example'' ''fetch'',
      healthOk ''https://shop.example'' ''fetch'' (Inl ''no body''),
      getOrderTypeDataError ''https://shop.example'' ''fetch''] \<and>
   suspended (deliverAll
     [(sampleRuntime, ResponseEvent (getStoreOk ''https://shop.example'' ''fetch'')),
      (sampleRuntime, ResponseEvent (getTokenOk ''https://shop.example'' ''fetch'')),
      (sampleRuntime, BodyArrives 0),
      (sampleRuntime, ResponseEvent (healthOk ''https://shop.example'' ''fetch'' (Inl ''no body''))),
      (sampleRuntime, ResponseEvent (getOrderTypeDataError ''https://shop.example'' ''fetch'')),
      (sampleRuntime, BodyArrives 1),
      (sampleRuntime, BodyArrives 0)] (newCustomEventHandler [] [])) = [] \<and>
   hasCriticalFailure (deliverAll
     [(sampleRuntime, ResponseEvent (getStoreOk ''https://shop.example'' ''fetch'')),
      (sampleRuntime, ResponseEvent (getTokenOk ''https://shop.example'' ''fetch'')),
      (sampleRuntime, BodyArrives 0),
      (sampleRuntime, ResponseEvent (healthOk ''https://shop.example'' ''fetch'' (Inl ''no body''))),
      (sampleRuntime, ResponseEvent (getOrderTypeDataError ''https://shop.example'' ''fetch'')),
      (sampleRuntime, BodyArrives 1),
      (sampleRuntime, BodyArrives 0)] (newCustomEventHandler [] [])) \<and>
   map_option obs_body (getEndpointResponse ''/getOrderTypeData'' (deliverAll
     [(sampleRuntime, ResponseEvent (getStoreOk ''https://shop.example'' ''fetch'')),
      (sampleRuntime, ResponseEvent (getTokenOk ''https://shop.example'' ''fetch'')),
      (sampleRuntime, BodyArrives 0),
      (sampleRuntime, ResponseEvent (healthOk ''https://shop.example'' ''fetch'' (Inl ''no body''))),
      (sampleRuntime, ResponseEvent (getOrderTypeDataError ''https://shop.example'' ''fetch'')),
      (sampleRuntime, BodyArrives 1),
      (sampleRuntime, BodyArrives 0)] (newCustomEventHandler [] [])))
     = Some (Some (JObj [(''error'', JBool True)])) \<and>
   map_option obs_body (getEndpointResponse ''/health'' (deliverAll
     [(sampleRuntime, ResponseEvent (getStoreOk ''https://shop.example'' ''fetch'')),
      (sampleRuntime, ResponseEvent (getTokenOk ''https://shop.example'' ''fetch'')),
      (sampleRuntime, BodyArrives 0),
      (sampleRuntime, ResponseEvent (healthOk ''https://shop.example'' ''fetch'' (Inl ''no body''))),
      (sampleRuntime, ResponseEvent (getOrderTypeDataError ''https://shop.example'' ''fetch'')),
      (sampleRuntime, BodyArrives 1),
      (sampleRuntime, BodyArrives 0)] (newCustomEventHandler [] [])))
     = Some (Some (JStr ''OK (200)''))"
proof -
  let ?sched = "[(sampleRuntime, ResponseEvent (getStoreOk ''https://shop.example'' ''fetch'')),
      (sampleRuntime, ResponseEvent (getTokenOk ''https://shop.example'' ''fetch'')),
      (sampleRuntime, BodyArrives 0),
      (sampleRuntime, ResponseEvent (healthOk ''https://shop.example'' ''fetch'' (Inl ''no body''))),
      (sampleRuntime, ResponseEvent (getOrderTypeDataError ''https://shop.example'' ''fetch'')),
      (sampleRuntime, BodyArrives 1),
      (sampleRuntime, BodyArrives 0)]"
  let ?H = "deliverAll ?sched (newCustomEventHandler [] [])"
  have a: "responsesOf ?sched =
     [getStoreOk ''https://shop.example'' ''fetch'', getTokenOk ''https://shop.example'' ''fetch'',
      healthOk ''https://shop.example'' ''fetch'' (Inl ''no body''),
      getOrderTypeDataError ''https://shop.example'' ''fetch'']"
    by simp
  have b: "suspended ?H = []"
    by (simp add: eval_simps getStoreOk_def getTokenOk_def healthOk_def getOrderTypeDataError_def)
  note sa = scenario_A [OF a b]
  from sa have c: "hasCriticalFailure ?H" by (rule conjunct1)
  from sa obtain ts where
    "getEndpointResponse ''/getOrderTypeData'' ?H =
        Some \<lparr> obs_url = ''https://shop.example'' @ ''/getOrderTypeData'', obs_timestamp = ts,
               obs_status = 200,
               obs_body = Some (JObj [(''error'', JBool True)]), obs_error = None \<rparr>"
    by blast
  then have d: "map_option obs_body (getEndpointResponse ''/getOrderTypeData'' ?H)
     = Some (Some (JObj [(''error'', JBool True)]))"
    by (simp only: option.map observation.simps)
  from sa obtain ts' where
    "getEndpointResponse ''/health'' ?H =
        Some \<lparr> obs_url = ''https://shop.example'' @ ''/health'', obs_timestamp = ts',
               obs_status = 200,
               obs_body = Some (JStr ''OK (200)''), obs_error = None \<rparr>"
    by blast
  then have e: "map_option obs_body (getEndpointResponse ''/health'' ?H)
     = Some (Some (JStr ''OK (200)''))"
    by (simp only: option.map observation.simps)
  show ?thesis
    by (intro conjI) (fact a, fact b, fact c, fact d, fact e)
qed

section \<open>Runs and the launcher\<close>

lemma runnerLog_fields [simp]:
  "rn_calls (runnerLog l m r) = rn_calls r"
  "rn_context (runnerLog l m r) = rn_context r"
  "rn_page (runnerLog l m r) = rn_page r"
  "rn_id (runnerLog l m r) = rn_id r"
  "rn_url (runnerLog l m r) = rn_url r"
  "rn_eventHandler (runnerLog l m r) = consoleLog l m (rn_eventHandler r)"
  by (simp_all add: runnerLog_def)

lemma doCall_fields [simp]:
  "rn_calls (doCall c r) = rn_calls r @ [c]"
  "rn_context (doCall c r) = rn_context r"
  "rn_page (doCall c r) = rn_page r"
  "rn_id (doCall c r) = rn_id r"
  "rn_url (doCall c r) = rn_url r"
  "rn_eventHandler (doCall c r) = rn_eventHandler r"
  by (simp_all add: doCall_def)

lemma awaitCall_fields [simp]:
  "fst (awaitCall c a r) = snd a"
  "rn_calls (snd (awaitCall c a r)) = rn_calls r @ [c]"
  "rn_context (snd (awaitCall c a r)) = rn_context r"
  "rn_page (snd (awaitCall c a r)) = rn_page r"
  "rn_id (snd (awaitCall c a r)) = rn_id r"
  "rn_url (snd (awaitCall c a r)) = rn_url r"
  "rn_eventHandler (snd (awaitCall c a r)) = deliverAll (fst a) (rn_eventHandler r)"
  by (simp_all add: awaitCall_def)

lemma adds_refl [simp]: "adds P r r"
  by (simp add: adds_def)

lemma adds_trans: "adds P r r' \<Longrightarrow> adds P r' r'' \<Longrightarrow> adds P r r''"
  by (auto simp: adds_def)

lemma adds_log [simp]: "adds P r (runnerLog l m r') = adds P r r'"
  by (simp add: adds_def)

lemma adds_monitorIframe: "adds pageCall r (monitorIframe sc r)"
  by (simp add: monitorIframe_def adds_def awaitCall_def pageCall_def
        split: sum.splits bool.splits option.splits)

lemma adds_waitForAppReady: "adds pageCall r (waitForAppReady sc r)"
  by (simp add: waitForAppReady_def adds_def awaitCall_def pageCall_def Let_def
        split: sum.splits)

lemma adds_captureScreenshot: "adds pageCall r (captureScreenshot sh label r)"
  by (simp add: captureScreenshot_def adds_def awaitCall_def pageCall_def Let_def
        split: sum.splits bool.splits)


subsection \<open>The console log only grows\<close>

lemma consoleLogger_deliver:
  "\<exists>ls. consoleLogger (deliver rt e h) = consoleLogger h @ ls"
proof (cases e)
  case (ConsoleEvent m)
  then show ?thesis
    by (simp add: handleConsole_def onConsoleError_def consoleLog_def Let_def)
next
  case (RequestEvent q)
  then show ?thesis by (simp add: handleRequest_def Let_def)
next
  case (ResponseEvent r)
  then show ?thesis by (simp add: handleResponse_def Let_def)
next
  case (BodyArrives k)
  then show ?thesis by simp
qed

lemma consoleLogger_deliverAll:
  "\<exists>ls. consoleLogger (deliverAll es h) = consoleLogger h @ ls"
proof (induction es arbitrary: h)
  case Nil
  show ?case by simp
next
  case (Cons x es)
  obtain rt e where x: "x = (rt, e)" by (cases x)
  obtain l1 where l1: "consoleLogger (deliver rt e h) = consoleLogger h @ l1"
    using consoleLogger_deliver by blast
  obtain l2 where "consoleLogger (deliverAll es (deliver rt e h)) = consoleLogger (deliver rt e h) @ l2"
    using Cons.IH by blast
  with l1 show ?case by (simp add: x)
qed

lemma keeps_refl [simp]: "keeps r r"
  by (simp add: keeps_def)

lemma keeps_trans: "keeps r r' \<Longrightarrow> keeps r' r'' \<Longrightarrow> keeps r r''"
  by (auto simp: keeps_def)

lemma keeps_log: "keeps r r' \<Longrightarrow> keeps r (runnerLog l m r')"
  by (auto simp: keeps_def consoleLog_def)

lemma keeps_doCall [simp]: "keeps r (doCall c r') = keeps r r'"
  by (simp add: keeps_def)

lemma keeps_await: "keeps r r' \<Longrightarrow> keeps r (snd (awaitCall c a r'))"
proof -
  assume "keeps r r'"
  then obtain l1 where l1: "consoleLogger (rn_eventHandler r') = consoleLogger (rn_eventHandler r) @ l1"
    by (auto simp: keeps_def)
  obtain l2 where "consoleLogger (deliverAll (fst a) (rn_eventHandler r'))
      = consoleLogger (rn_eventHandler r') @ l2"
    using consoleLogger_deliverAll by blast
  with l1 show ?thesis by (simp add: keeps_def)
qed

lemma keeps_logged:
  "keeps r r' \<Longrightarrow> x \<in> set (consoleLogger (rn_eventHandler r)) \<Longrightarrow>
   x \<in> set (consoleLogger (rn_eventHandler r'))"
  by (auto simp: keeps_def)

lemma awaitCall_eq: "awaitCall c a r = (snd a, snd (awaitCall c a r))"
  by (simp add: awaitCall_def)

lemma keeps_captureScreenshot: "keeps r (captureScreenshot sh label r)"
  unfolding captureScreenshot_def Let_def
  by (subst (1 2) awaitCall_eq)
     (auto split: sum.splits bool.splits intro!: keeps_log keeps_await)

lemma fold_summary_fields:
  assumes F: "\<And>p q. rn_calls (F p q) = rn_calls q \<and> rn_context (F p q) = rn_context q \<and>
                 rn_page (F p q) = rn_page q \<and> rn_id (F p q) = rn_id q \<and>
                 rn_url (F p q) = rn_url q \<and> keeps q (F p q)"
  shows "rn_calls (fold F xs r) = rn_calls r \<and> rn_context (fold F xs r) = rn_context r \<and>
         rn_page (fold F xs r) = rn_page r \<and> rn_id (fold F xs r) = rn_id r \<and>
         rn_url (fold F xs r) = rn_url r \<and> keeps r (fold F xs r)"
proof (induction xs arbitrary: r)
  case Nil
  show ?case by simp
next
  case (Cons x xs)
  from F [of x r] Cons.IH [of "F x r"] show ?case
    by (auto intro: keeps_trans)
qed

lemma logResponseSummary_fields [simp]:
  "rn_calls (logResponseSummary r) = rn_calls r"
  "rn_context (logResponseSummary r) = rn_context r"
  "rn_page (logResponseSummary r) = rn_page r"
  "rn_id (logResponseSummary r) = rn_id r"
  "rn_url (logResponseSummary r) = rn_url r"
  unfolding logResponseSummary_def Let_def
  by (subst fold_summary_fields [THEN conjunct1]
        | subst fold_summary_fields [THEN conjunct2, THEN conjunct1]
        | subst fold_summary_fields [THEN conjunct2, THEN conjunct2, THEN conjunct1]
        | subst fold_summary_fields [THEN conjunct2, THEN conjunct2, THEN conjunct2, THEN conjunct1]
        | subst fold_summary_fields [THEN conjunct2, THEN conjunct2, THEN conjunct2, THEN conjunct2, THEN conjunct1]
        | simp add: split_def keeps_log)+

lemma logResponseSummary_header:
  "(Info, ''=== Runner Summary ==='') \<in> set (consoleLogger (rn_eventHandler (logResponseSummary r)))"
proof -
  let ?r1 = "runnerLog Info ''=== Runner Summary ==='' r"
  have a: "(Info, ''=== Runner Summary ==='') \<in> set (consoleLogger (rn_eventHandler ?r1))"
    by (simp add: consoleLog_def)
  let ?r5 = "runnerLog Info
                 (''Critical Endpoints Tracked: '' @
                  showNat (criticalEndpointsTracked (getStats (rn_eventHandler r))))
              (runnerLog Info (''Server Errors: '' @ showNat (serverErrors (getStats (rn_eventHandler r))))
                (runnerLog Info (''Console Errors: '' @ showNat (consoleErrors (getStats (rn_eventHandler r))))
                  (runnerLog Info (''Total Requests: '' @ showNat (totalRequests (getStats (rn_eventHandler r))))
                     ?r1)))"
  have "keeps ?r1 ?r5"
    by (rule keeps_log, rule keeps_log, rule keeps_log, rule keeps_log, rule keeps_refl)
  moreover have "keeps ?r5 (logResponseSummary r)"
    unfolding logResponseSummary_def Let_def
    by (rule fold_summary_fields [THEN conjunct2, THEN conjunct2, THEN conjunct2, THEN conjunct2,
          THEN conjunct2])
       (simp add: split_def keeps_log)
  ultimately have "keeps ?r1 (logResponseSummary r)" by (rule keeps_trans)
  with a show ?thesis by (rule keeps_logged [rotated])
qed

lemma executeScenario_fields:
  assumes "rn_page r"
  shows "fst (executeScenario sc r) = snd (sc_scenario sc)"
    and "rn_calls (snd (executeScenario sc r)) = rn_calls r @ [ScenarioExecute]"
    and "rn_context (snd (executeScenario sc r)) = rn_context r"
    and "rn_page (snd (executeScenario sc r)) = rn_page r"
    and "rn_id (snd (executeScenario sc r)) = rn_id r"
    and "rn_url (snd (executeScenario sc r)) = rn_url r"
  using assms
  by (simp_all add: executeScenario_def awaitCall_def Let_def split: sum.splits)

lemma pageCall_sessionCall: "list_all pageCall cs \<Longrightarrow> list_all sessionCall cs"
  by (induction cs) (auto simp: pageCall_def sessionCall_def)

lemma addsD:
  assumes "adds P r r'"
  obtains cs where "rn_calls r' = rn_calls r @ cs" "list_all P cs"
    "rn_context r' = rn_context r" "rn_page r' = rn_page r" "rn_id r' = rn_id r"
    "rn_url r' = rn_url r"
  using assms by (auto simp: adds_def)

lemma adds_gate: "adds pageCall r (waitForAppReady sc (monitorIframe sc r))"
  by (rule adds_trans [OF adds_monitorIframe adds_waitForAppReady])

lemma toCriticalCheck_reached:
  assumes "toCriticalCheck sc r = (Inr (), r1)"
  shows "rn_context r1" and "rn_page r1" and "rn_id r1 = rn_id r" and "rn_url r1 = rn_url r"
    and "\<not> isl (sc_newContext sc)"
    and "\<exists>cs. rn_calls r1 = rn_calls r @ NewContext # cs \<and> list_all pageCall cs"
proof -
  let ?r3 = "runnerLog Info (''Loaded: '' @ rn_url r)
     (snd (awaitCall (Goto (rn_url r)) (sc_goto sc)
        (runnerLog Info (''Opening: '' @ rn_url r)
           (doCall (PageOn ''response'')
              (doCall (PageOn ''request'')
                 (doCall (PageOn ''console'')
                    ((snd (awaitCall NewPage ([], sc_newPage sc)
                        ((snd (awaitCall NewContext ([], sc_newContext sc) r))
                           \<lparr>rn_context := True\<rparr>)))
                       \<lparr>rn_page := True\<rparr>)))))))"
  from assms have ok: "\<not> isl (sc_newContext sc)"
    and r1: "r1 = waitForAppReady sc (monitorIframe sc ?r3)"
    by (auto simp: toCriticalCheck_def awaitCall_def split: sum.splits)
  from adds_gate [of ?r3 sc] obtain cs where
    cs: "rn_calls r1 = rn_calls ?r3 @ cs" "list_all pageCall cs"
    and f: "rn_context r1 = rn_context ?r3" "rn_page r1 = rn_page ?r3" "rn_id r1 = rn_id ?r3"
      "rn_url r1 = rn_url ?r3"
    unfolding r1 by (rule addsD)
  show "rn_context r1" "rn_page r1" "rn_id r1 = rn_id r" "rn_url r1 = rn_url r"
    using f by simp_all
  show "\<not> isl (sc_newContext sc)" by (rule ok)
  have "rn_calls r1 = rn_calls r @ NewContext #
      ([NewPage, PageOn ''console'', PageOn ''request'', PageOn ''response'', Goto (rn_url r)] @ cs)"
    using cs(1) by simp
  moreover have "list_all pageCall
      ([NewPage, PageOn ''console'', PageOn ''request'', PageOn ''response'', Goto (rn_url r)] @ cs)"
    using cs(2) by (simp add: pageCall_def)
  ultimately show "\<exists>cs. rn_calls r1 = rn_calls r @ NewContext # cs \<and> list_all pageCall cs"
    by blast
qed

lemma toCriticalCheck_failed:
  assumes "toCriticalCheck sc r = (Inl e, r1)"
  shows "rn_context r1 = (rn_context r \<or> \<not> isl (sc_newContext sc))"
    and "\<exists>cs. rn_calls r1 = rn_calls r @ NewContext # cs \<and> list_all pageCall cs"
  using assms
  by (auto simp: toCriticalCheck_def awaitCall_def pageCall_def split: sum.splits)

lemma captureScreenshot_calls:
  assumes "rn_page r"
  shows "rn_calls (captureScreenshot sh label r) =
     rn_calls r @ Query iframeSelector #
       (if snd (shot_query sh) = Inr True
        then [ElementScreenshot (shot_dir sh) (screenshotName (rn_id r) label (shot_now sh))]
        else [])"
  using assms
  by (simp add: captureScreenshot_def awaitCall_def Let_def split: sum.splits bool.splits)

lemma captureScreenshot_fields [simp]:
  "rn_context (captureScreenshot sh label r) = rn_context r"
  "rn_page (captureScreenshot sh label r) = rn_page r"
  "rn_id (captureScreenshot sh label r) = rn_id r"
  "rn_url (captureScreenshot sh label r) = rn_url r"
  using adds_captureScreenshot [of r sh label] by (simp_all add: adds_def)

lemma fromCriticalCheck_abort:
  assumes "hasCriticalFailure (rn_eventHandler r)"
  shows "fromCriticalCheck sc r =
     (Inr (), captureScreenshot (sc_shotAbort sc) None
        (runnerLog Error
           ''Critical endpoint failure detected - stopping runner and taking screenshot'' r))"
  using assms by (simp add: fromCriticalCheck_def)

lemma fromCriticalCheck_scenario:
  assumes "\<not> hasCriticalFailure (rn_eventHandler r)" "rn_page r"
  shows "rn_context (snd (fromCriticalCheck sc r)) = rn_context r"
    and "\<exists>cs1 cs2. rn_calls (snd (fromCriticalCheck sc r)) = rn_calls r @ cs1 @ ScenarioExecute # cs2 \<and>
                   list_all pageCall cs1 \<and> list_all pageCall cs2"
    and "fst (fromCriticalCheck sc r) = snd (sc_scenario sc)"
proof -
  let ?b = "captureScreenshot (sc_shotBefore sc) (Some ''before-scenario'') r"
  define s where "s = snd (executeScenario sc ?b)"
  let ?a = "captureScreenshot (sc_shotAfter sc) (Some ''after-scenario'') s"
  have pb: "rn_page ?b" using assms(2) by simp
  note es = executeScenario_fields [OF pb, of sc, folded s_def]
  from adds_captureScreenshot [of r "sc_shotBefore sc" "Some ''before-scenario''"]
  obtain cs1 where cs1: "rn_calls ?b = rn_calls r @ cs1" "list_all pageCall cs1"
    by (rule addsD)
  from adds_captureScreenshot [of s "sc_shotAfter sc" "Some ''after-scenario''"]
  obtain cs2 where cs2: "rn_calls ?a = rn_calls s @ cs2" "list_all pageCall cs2"
    by (rule addsD)
  have ex: "executeScenario sc ?b = (snd (sc_scenario sc), s)"
    using es(1) by (simp add: prod_eq_iff s_def)
  have res: "fromCriticalCheck sc r =
     (case snd (sc_scenario sc) of Inl error \<Rightarrow> (Inl error, s)
      | Inr u \<Rightarrow> (Inr (), logResponseSummary ?a))"
    unfolding fromCriticalCheck_def using assms(1)
    by (simp only: ex if_False prod.case)
  show "rn_context (snd (fromCriticalCheck sc r)) = rn_context r"
    unfolding res using es(3) by (simp split: sum.splits)
  show "fst (fromCriticalCheck sc r) = snd (sc_scenario sc)"
    unfolding res by (simp split: sum.splits)
  show "\<exists>cs1 cs2. rn_calls (snd (fromCriticalCheck sc r)) = rn_calls r @ cs1 @ ScenarioExecute # cs2 \<and>
                   list_all pageCall cs1 \<and> list_all pageCall cs2"
  proof (cases "snd (sc_scenario sc)")
    case (Inl e)
    then have "rn_calls (snd (fromCriticalCheck sc r)) = rn_calls r @ cs1 @ ScenarioExecute # []"
      unfolding res using es(2) cs1(1) by simp
    moreover have "list_all pageCall []" by simp
    ultimately show ?thesis using cs1(2) by blast
  next
    case (Inr u)
    then have "rn_calls (snd (fromCriticalCheck sc r)) = rn_calls r @ cs1 @ ScenarioExecute # cs2"
      unfolding res using es(2) cs1(1) cs2(1) by simp
    with cs1(2) cs2(2) show ?thesis by blast
  qed
qed

lemma run_resolves: "fst (run sc r) = Inr ()"
  by (simp add: run_def finallyBlock_def catchBlock_def split: prod.splits sum.splits)

lemma run_not_reached:
  assumes "toCriticalCheck sc r = (Inl e, r1)"
  shows "run sc r =
     (Inr (), if rn_context r1 then doCall ContextClose (runnerLog Error (''Error: '' @ e) r1)
              else runnerLog Error (''Error: '' @ e) r1)"
  using assms by (simp add: run_def tryBlock_def catchBlock_def finallyBlock_def)

lemma run_abort:
  assumes "toCriticalCheck sc r = (Inr (), r1)" "hasCriticalFailure (rn_eventHandler r1)"
  shows "run sc r =
     (Inr (), doCall ContextClose
        (captureScreenshot (sc_shotAbort sc) None
           (runnerLog Error
              ''Critical endpoint failure detected - stopping runner and taking screenshot'' r1)))"
  using assms toCriticalCheck_reached(1) [OF assms(1)]
  by (simp add: run_def tryBlock_def catchBlock_def finallyBlock_def fromCriticalCheck_abort)

lemma run_scenario:
  assumes "toCriticalCheck sc r = (Inr (), r1)" "\<not> hasCriticalFailure (rn_eventHandler r1)"
  shows "snd (run sc r) =
     doCall ContextClose
       (case snd (sc_scenario sc) of
          Inl e \<Rightarrow> runnerLog Error (''Error: '' @ e) (snd (fromCriticalCheck sc r1))
        | Inr u \<Rightarrow> snd (fromCriticalCheck sc r1))"
proof -
  have p: "rn_page r1" and c: "rn_context r1"
    using toCriticalCheck_reached [OF assms(1)] by simp_all
  note fc = fromCriticalCheck_scenario [OF assms(2) p, of sc]
  define q where "q = snd (fromCriticalCheck sc r1)"
  have f: "fromCriticalCheck sc r1 = (snd (sc_scenario sc), q)"
    using fc(3) by (simp add: prod_eq_iff q_def)
  have cq: "rn_context q" using fc(1) c by (simp add: q_def)
  show ?thesis
    unfolding run_def tryBlock_def assms(1) q_def [symmetric]
    using cq by (simp add: f catchBlock_def finallyBlock_def split: sum.splits)
qed

lemma run_calls:
  assumes "\<not> rn_context r"
  shows "\<exists>cs. rn_calls (snd (run sc r)) =
           rn_calls r @ NewContext # cs @ (if isl (sc_newContext sc) then [] else [ContextClose]) \<and>
           list_all sessionCall cs"
proof (cases "toCriticalCheck sc r")
  case (Pair res r1)
  show ?thesis
  proof (cases res)
    case (Inl e)
    with Pair have t: "toCriticalCheck sc r = (Inl e, r1)" by simp
    from toCriticalCheck_failed [OF t] assms obtain cs where
      c: "rn_context r1 = (\<not> isl (sc_newContext sc))"
      and cs: "rn_calls r1 = rn_calls r @ NewContext # cs" "list_all pageCall cs"
      by auto
    have "rn_calls (snd (run sc r)) =
        rn_calls r @ NewContext # cs @ (if isl (sc_newContext sc) then [] else [ContextClose])"
      unfolding run_not_reached [OF t] using c cs(1) by simp
    with cs(2) show ?thesis using pageCall_sessionCall by blast
  next
    case (Inr u)
    with Pair have t: "toCriticalCheck sc r = (Inr (), r1)" by simp
    from toCriticalCheck_reached [OF t] obtain cs where
      ok: "\<not> isl (sc_newContext sc)" and p: "rn_page r1"
      and cs: "rn_calls r1 = rn_calls r @ NewContext # cs" "list_all pageCall cs"
      by auto
    show ?thesis
    proof (cases "hasCriticalFailure (rn_eventHandler r1)")
      case True
      from adds_captureScreenshot
        [of "runnerLog Error
              ''Critical endpoint failure detected - stopping runner and taking screenshot'' r1"
            "sc_shotAbort sc" None]
      obtain cs' where cs': "rn_calls (captureScreenshot (sc_shotAbort sc) None
           (runnerLog Error
              ''Critical endpoint failure detected - stopping runner and taking screenshot'' r1))
          = rn_calls r1 @ cs'" "list_all pageCall cs'"
        by (rule addsD) simp
      have "rn_calls (snd (run sc r)) = rn_calls r @ NewContext # (cs @ cs') @
              (if isl (sc_newContext sc) then [] else [ContextClose])"
        unfolding run_abort [OF t True] using cs(1) cs'(1) ok by simp
      moreover have "list_all sessionCall (cs @ cs')"
        using cs(2) cs'(2) by (simp add: pageCall_sessionCall)
      ultimately show ?thesis by blast
    next
      case False
      from fromCriticalCheck_scenario(2) [OF False p, of sc] obtain cs1 cs2 where
        f: "rn_calls (snd (fromCriticalCheck sc r1)) = rn_calls r1 @ cs1 @ ScenarioExecute # cs2"
          "list_all pageCall cs1" "list_all pageCall cs2"
        by blast
      have "rn_calls (snd (run sc r)) = rn_calls r @ NewContext # (cs @ cs1 @ ScenarioExecute # cs2) @
              (if isl (sc_newContext sc) then [] else [ContextClose])"
        unfolding run_scenario [OF t False] using cs(1) f(1) ok by (simp split: sum.splits)
      moreover have "list_all sessionCall (cs @ cs1 @ ScenarioExecute # cs2)"
        using cs(2) f(2,3) by (simp add: pageCall_sessionCall sessionCall_def)
      ultimately show ?thesis by blast
    qed
  qed
qed

lemma drain_proj:
  "map snd (filter (\<lambda>p. fst p = i) (drain k ts)) =
     (if k \<le> i \<and> i < k + length ts then ts ! (i - k) else [])"
proof (induction ts arbitrary: k)
  case Nil
  show ?case by auto
next
  case (Cons t ts)
  have a: "map snd (filter (\<lambda>p. fst p = i) (map (Pair k) t)) = (if i = k then t else [])"
    by (induction t) auto
  have split: "map snd (filter (\<lambda>p. fst p = i) (drain k (t # ts))) =
      map snd (filter (\<lambda>p. fst p = i) (map (Pair k) t)) @
      map snd (filter (\<lambda>p. fst p = i) (drain (Suc k) ts))"
    by (simp only: drain.simps filter_append map_append)
  show ?case
  proof (cases "i = k")
    case True
    have "map snd (filter (\<lambda>p. fst p = i) (drain (Suc k) ts)) = []"
      unfolding Cons.IH using True by simp
    then show ?thesis unfolding split a using True by simp
  next
    case False
    have "map snd (filter (\<lambda>p. fst p = i) (drain (Suc k) ts)) =
        (if Suc k \<le> i \<and> i < Suc k + length ts then ts ! (i - Suc k) else [])"
      by (rule Cons.IH)
    then show ?thesis unfolding split a using False
      by (auto simp: nth_Cons' Suc_diff_le)
  qed
qed

lemma interleave_proj:
  "i < length ts \<Longrightarrow> map snd (filter (\<lambda>p. fst p = i) (interleave sched ts)) = ts ! i"
proof (induction sched arbitrary: ts)
  case Nil
  then show ?case by (simp add: drain_proj)
next
  case (Cons j sched)
  show ?case
  proof (cases "j < length ts")
    case False
    with Cons show ?thesis by simp
  next
    case True
    show ?thesis
    proof (cases "ts ! j")
      case Nil
      with True Cons show ?thesis by simp
    next
      case (Cons c cs)
      have len: "i < length (ts[j := cs])" using Cons.prems by simp
      note ih = Cons.IH [OF len]
      show ?thesis
      proof (cases "i = j")
        case True
        with \<open>j < length ts\<close> Cons ih show ?thesis by simp
      next
        case False
        with \<open>j < length ts\<close> Cons ih show ?thesis by simp
      qed
    qed
  qed
qed

lemma drain_mem:
  "(i, c) \<in> set (drain k ts) \<Longrightarrow> k \<le> i \<and> i < k + length ts \<and> c \<in> set (ts ! (i - k))"
proof (induction ts arbitrary: k)
  case Nil
  then show ?case by simp
next
  case (Cons t ts)
  from Cons.prems consider "i = k \<and> c \<in> set t" | "(i, c) \<in> set (drain (Suc k) ts)"
    by auto
  then show ?case
  proof cases
    case 1
    then show ?thesis by simp
  next
    case 2
    from Cons.IH [OF 2] show ?thesis by (auto simp: Suc_diff_le nth_Cons')
  qed
qed

lemma interleave_mem:
  "(i, c) \<in> set (interleave sched ts) \<Longrightarrow> i < length ts \<and> c \<in> set (ts ! i)"
proof (induction sched arbitrary: ts)
  case Nil
  then show ?case using drain_mem [of i c 0 ts] by simp
next
  case (Cons j sched)
  show ?case
  proof (cases "j < length ts")
    case False
    with Cons show ?thesis by simp
  next
    case True
    show ?thesis
    proof (cases "ts ! j")
      case Nil
      with True Cons show ?thesis by simp
    next
      case (Cons d ds)
      with True Cons.prems
      consider "(i, c) = (j, d)" | "(i, c) \<in> set (interleave sched (ts[j := ds]))"
        by auto
      then show ?thesis
      proof cases
        case 1
        with True Cons show ?thesis by simp
      next
        case 2
        from Cons.IH [OF 2] have i: "i < length ts" and c: "c \<in> set ((ts[j := ds]) ! i)"
          by simp_all
        show ?thesis
        proof (cases "i = j")
          case True
          with c i Cons show ?thesis by simp
        next
          case False
          with c i show ?thesis by simp
        qed
      qed
    qed
  qed
qed

lemma closeWhenSettled_none:
  "(\<And>i. \<not> rejects i) \<Longrightarrow>
   closeWhenSettled rejects tr = map (\<lambda>(j, d). (Session j, d)) tr @ [(Launcher, BrowserClose)]"
  by (induction tr) auto

lemma runnerPromise_resolves: "fst (runnerPromise URLS pick sc i) = Inr ()"
  using run_resolves [of sc "newRunner (URLS ! pick) (int i)"]
  by (auto simp: runnerPromise_def split: prod.splits)

lemma newRunner_fields [simp]:
  "rn_context (newRunner u i) = False" "rn_page (newRunner u i) = False"
  "rn_calls (newRunner u i) = []" "rn_id (newRunner u i) = i" "rn_url (newRunner u i) = u"
  by (simp_all add: newRunner_def)

lemma session_calls:
  obtains cs where
    "rn_calls (snd (run sc (newRunner u i))) =
       NewContext # cs @ (if isl (sc_newContext sc) then [] else [ContextClose])"
    "list_all sessionCall cs"
  using run_calls [of "newRunner u i" sc] by auto

lemma sessionCall_count: "list_all sessionCall cs \<Longrightarrow> count_list cs ContextClose = 0"
  by (induction cs) (auto simp: sessionCall_def)

lemma sessionCall_no_close: "list_all sessionCall cs \<Longrightarrow> BrowserClose \<notin> set cs"
  by (induction cs) (auto simp: sessionCall_def)

lemma session_releases_once:
  "count_list (rn_calls (snd (run sc (newRunner u i)))) ContextClose
     = (if isl (sc_newContext sc) then 0 else 1)"
proof -
  obtain cs where cs: "rn_calls (snd (run sc (newRunner u i))) =
       NewContext # cs @ (if isl (sc_newContext sc) then [] else [ContextClose])"
    "list_all sessionCall cs"
    by (rule session_calls)
  show ?thesis unfolding cs(1) using sessionCall_count [OF cs(2)] by simp
qed

lemma session_release_last:
  "\<not> isl (sc_newContext sc) \<Longrightarrow> last (rn_calls (snd (run sc (newRunner u i)))) = ContextClose"
proof -
  assume a: "\<not> isl (sc_newContext sc)"
  obtain cs where cs: "rn_calls (snd (run sc (newRunner u i))) =
       NewContext # cs @ (if isl (sc_newContext sc) then [] else [ContextClose])"
    "list_all sessionCall cs"
    by (rule session_calls)
  show ?thesis unfolding cs(1) using a by simp
qed

lemma session_leaves_browser:
  "BrowserClose \<notin> set (rn_calls (snd (run sc (newRunner u i))))"
proof -
  obtain cs where cs: "rn_calls (snd (run sc (newRunner u i))) =
       NewContext # cs @ (if isl (sc_newContext sc) then [] else [ContextClose])"
    "list_all sessionCall cs"
    by (rule session_calls)
  show ?thesis unfolding cs(1) using sessionCall_no_close [OF cs(2)] by simp
qed

lemma runnerPromise_leaves_browser:
  "BrowserClose \<notin> set (snd (runnerPromise URLS pick sc i))"
  using session_leaves_browser [of sc "URLS ! pick" "int i"]
  by (auto simp: runnerPromise_def split: prod.splits)

lemma tag_filter:
  "map snd (filter (\<lambda>p. fst p = Session i) (map (\<lambda>(j, d). (Session j, d)) tr))
     = map snd (filter (\<lambda>p. fst p = i) tr)"
  by (induction tr) auto

lemma tag_no_close:
  "\<forall>p\<in>set tr. snd p \<noteq> BrowserClose \<Longrightarrow>
   filter (\<lambda>p. snd p = BrowserClose) (map (\<lambda>(j, d). (Session j, d)) tr) = []"
  by (induction tr) (auto simp: split_def)

lemma launch_eq:
  "launch count URLS picks scripts sched =
     (Launcher, Launch) #
     map (\<lambda>(j, d). (Session j, d))
       (interleave sched
          (map (\<lambda>i. snd (runnerPromise URLS (picks i) (scripts i) i)) [0..<count])) @
     [(Launcher, BrowserClose)]"
proof -
  let ?ps = "map (\<lambda>i. runnerPromise URLS (picks i) (scripts i) i) [0..<count]"
  have "\<not> (i < count \<and> isl (fst (?ps ! i)))" for i
    by (simp add: runnerPromise_resolves)
  then have "closeWhenSettled (\<lambda>i. i < count \<and> isl (fst (?ps ! i))) tr =
      map (\<lambda>(j, d). (Session j, d)) tr @ [(Launcher, BrowserClose)]" for tr
    by (rule closeWhenSettled_none)
  then show ?thesis
    by (simp add: launch_def Let_def comp_def)
qed

text \<open>
  Claim C8.  For every number of sessions, every list of URLs, every environment of each
  session and every interleaving of their calls:
  \<^item> the calls of session \<open>i\<close> in the program are those of its own run, which its
    own environment determines: what happens in another session, its scenario throwing
    included, changes nothing in them;
  \<^item> the promise of a run resolves, whatever rejects inside it (creating the context or
    the page, the navigation, the scenario): the error is caught and logged in the run;
  \<^item> a run closes its context exactly once, as its last call, when it has one (when
    \<open>browser.newContext()\<close> resolved), and makes no call to close it otherwise;
  \<^item> no session closes the browser; the launcher closes it exactly once, and that is
    the last call of the program.
\<close>

theorem sessions_are_isolated:
  "(\<forall>i<count. callsOf i (launch count URLS picks scripts sched) =
                snd (runnerPromise URLS (picks i) (scripts i) i)) \<and>
   fst (run sc (newRunner u n)) = Inr () \<and>
   count_list (rn_calls (snd (run sc (newRunner u n)))) ContextClose =
     (if isl (sc_newContext sc) then 0 else 1) \<and>
   (\<not> isl (sc_newContext sc) \<longrightarrow> last (rn_calls (snd (run sc (newRunner u n)))) = ContextClose) \<and>
   BrowserClose \<notin> set (rn_calls (snd (run sc (newRunner u n)))) \<and>
   filter (\<lambda>p. snd p = BrowserClose) (launch count URLS picks scripts sched) =
     [(Launcher, BrowserClose)] \<and>
   last (launch count URLS picks scripts sched) = (Launcher, BrowserClose)"
proof -
  let ?ts = "map (\<lambda>i. snd (runnerPromise URLS (picks i) (scripts i) i)) [0..<count]"
  let ?tr = "interleave sched ?ts"
  have a: "\<forall>i<count. callsOf i (launch count URLS picks scripts sched) =
                snd (runnerPromise URLS (picks i) (scripts i) i)"
  proof (intro allI impI)
    fix i assume i: "i < count"
    then have "i < length ?ts" by simp
    then have "map snd (filter (\<lambda>p. fst p = i) ?tr) = ?ts ! i"
      by (rule interleave_proj)
    with i show "callsOf i (launch count URLS picks scripts sched) =
                snd (runnerPromise URLS (picks i) (scripts i) i)"
      by (simp add: callsOf_def launch_eq tag_filter)
  qed
  have none: "c \<noteq> BrowserClose" if "(j, c) \<in> set ?tr" for j c
  proof -
    note m = interleave_mem [OF that]
    from m have j: "j < count" by simp
    from m have "c \<in> set (?ts ! j)" by (rule conjunct2)
    with j have "c \<in> set (snd (runnerPromise URLS (picks j) (scripts j) j))" by simp
    with runnerPromise_leaves_browser show ?thesis by metis
  qed
  have f: "filter (\<lambda>p. snd p = BrowserClose) (launch count URLS picks scripts sched) =
     [(Launcher, BrowserClose)]"
  proof -
    have "\<forall>p\<in>set ?tr. snd p \<noteq> BrowserClose" using none by auto
    then show ?thesis unfolding launch_eq by (simp add: tag_no_close)
  qed
  have l: "last (launch count URLS picks scripts sched) = (Launcher, BrowserClose)"
    unfolding launch_eq by simp
  from a f l run_resolves [of sc "newRunner u n"] session_releases_once [of sc u n]
    session_release_last [of sc u n] session_leaves_browser [of sc u n]
  show ?thesis by blast
qed

lemma fromCriticalCheck_completed:
  assumes "\<not> hasCriticalFailure (rn_eventHandler r)" "rn_page r" "snd (sc_scenario sc) = Inr v"
  shows "\<exists>q. snd (fromCriticalCheck sc r) = logResponseSummary q"
proof -
  let ?b = "captureScreenshot (sc_shotBefore sc) (Some ''before-scenario'') r"
  define s where "s = snd (executeScenario sc ?b)"
  have pb: "rn_page ?b" using assms(2) by simp
  note es = executeScenario_fields [OF pb, of sc, folded s_def]
  have ex: "executeScenario sc ?b = (Inr (), s)"
    using es(1) assms(3) by (simp add: prod_eq_iff s_def)
  have "fromCriticalCheck sc r =
      (Inr (), logResponseSummary (captureScreenshot (sc_shotAfter sc) (Some ''after-scenario'') s))"
    using assms(1) by (simp add: fromCriticalCheck_def ex)
  then show ?thesis by (metis snd_conv)
qed


lemmas run_simps =
  run_def tryBlock_def catchBlock_def finallyBlock_def toCriticalCheck_def fromCriticalCheck_def
  monitorIframe_def waitForAppReady_def captureScreenshot_def executeScenario_def
  awaitCall_def doCall_def runnerLog_def screenshotName_def iframeSelector_def
  newRunner_def getEventHandler_def sampleScript_def sampleShot_def healthyLoad_def




theorem sessions_are_isolated_witness:
  "(0::nat) < 3 \<and> (1::nat) < 3 \<and> (2::nat) < 3 \<and>
   snd (sc_scenario (scenarioC_scripts 1)) = Inl ''Error: button not found'' \<and>
   \<not> isl (sc_newContext (scenarioC_scripts 1)) \<and>
   callsOf 0 (launch 3 [''https://shop.example/s/1''] (\<lambda>i. 0) scenarioC_scripts [0, 1, 2, 2, 1, 0])
     = snd (runnerPromise [''https://shop.example/s/1''] 0 (scenarioC_scripts 0) 0) \<and>
   callsOf 1 (launch 3 [''https://shop.example/s/1''] (\<lambda>i. 0) scenarioC_scripts [0, 1, 2, 2, 1, 0])
     = snd (runnerPromise [''https://shop.example/s/1''] 0 (scenarioC_scripts 1) 1) \<and>
   callsOf 2 (launch 3 [''https://shop.example/s/1''] (\<lambda>i. 0) scenarioC_scripts [0, 1, 2, 2, 1, 0])
     = snd (runnerPromise [''https://shop.example/s/1''] 0 (scenarioC_scripts 2) 2) \<and>
   fst (run (scenarioC_scripts 1) (newRunner ''https://shop.example/s/1'' 1)) = Inr () \<and>
   count_list (rn_calls (snd (run (scenarioC_scripts 1) (newRunner ''https://shop.example/s/1'' 1))))
     ContextClose = 1 \<and>
   last (rn_calls (snd (run (scenarioC_scripts 1) (newRunner ''https://shop.example/s/1'' 1))))
     = ContextClose \<and>
   snd (runnerPromise [''https://shop.example/s/1''] 0 (scenarioC_scripts 1) 1) =
     [NewContext, NewPage, PageOn ''console'', PageOn ''request'', PageOn ''response'',
      Goto ''https://shop.example/s/1'', WaitForSelector ''iframe#iframeFE'',
      Query ''iframe#iframeFE'', ContentFrame, WaitForLoadState, WaitForResponse, SetTimeout 100,
      Query ''iframe#iframeFE'',
      ElementScreenshot ''/work/screenshots'' ''runner-1-before-scenario-2025-01-01T00-00-00-000Z.png'',
      ScenarioExecute, ContextClose] \<and>
   filter (\<lambda>p. snd p = BrowserClose)
     (launch 3 [''https://shop.example/s/1''] (\<lambda>i. 0) scenarioC_scripts [0, 1, 2, 2, 1, 0])
     = [(Launcher, BrowserClose)] \<and>
   last (launch 3 [''https://shop.example/s/1''] (\<lambda>i. 0) scenarioC_scripts [0, 1, 2, 2, 1, 0])
     = (Launcher, BrowserClose)"
proof -
  let ?L = "launch 3 [''https://shop.example/s/1''] (\<lambda>i. 0) scenarioC_scripts [0, 1, 2, 2, 1, 0]"
  note t = sessions_are_isolated
    [of 3 "[''https://shop.example/s/1'']" "\<lambda>i. 0" scenarioC_scripts "[0, 1, 2, 2, 1, 0]"
        "scenarioC_scripts 1" "''https://shop.example/s/1''" 1]
  have h: "snd (sc_scenario (scenarioC_scripts 1)) = Inl ''Error: button not found''"
    "\<not> isl (sc_newContext (scenarioC_scripts 1))"
    by (simp_all add: scenarioC_scripts_def sampleScript_def)
  have c: "snd (runnerPromise [''https://shop.example/s/1''] 0 (scenarioC_scripts 1) 1) =
     [NewContext, NewPage, PageOn ''console'', PageOn ''request'', PageOn ''response'',
      Goto ''https://shop.example/s/1'', WaitForSelector ''iframe#iframeFE'',
      Query ''iframe#iframeFE'', ContentFrame, WaitForLoadState, WaitForResponse, SetTimeout 100,
      Query ''iframe#iframeFE'',
      ElementScreenshot ''/work/screenshots'' ''runner-1-before-scenario-2025-01-01T00-00-00-000Z.png'',
      ScenarioExecute, ContextClose]"
    by (simp add: runnerPromise_def scenarioC_scripts_def run_simps eval_simps)
  from t h c show ?thesis by simp
qed


end
